theory Spec2Isabelle
  imports Main "HOL-Library.Word" "HOL-Library.AList" "HOL-Library.Multiset"
begin

section \<open>JavaScript values\<close>

text \<open>
  The program is one React component, \<^verbatim>\<open>src/app/page.tsx\<close>. Its state holds JavaScript
  values: the TypeScript annotations (\<^verbatim>\<open>LinkItem[]\<close>, \<^verbatim>\<open>string\<close>) are erased at run time and
  \<^verbatim>\<open>setLinks(parsed)\<close> stores whatever \<^verbatim>\<open>JSON.parse\<close> returned. The model therefore keeps the
  state as run-time values and embeds the typed \<^verbatim>\<open>LinkItem\<close> records into them.

  A JavaScript string is a sequence of UTF-16 code units.
\<close>

type_synonym code_unit = "16 word"
type_synonym jstring = "code_unit list"

text \<open>A string literal of the source, as code units (all literals of the source are ASCII).\<close>

definition js :: "string \<Rightarrow> jstring" where
  "js s = map of_char s"

text \<open>
  The values a state variable can hold: what \<^verbatim>\<open>JSON.parse\<close> produces, and \<^verbatim>\<open>undefined\<close>.
  A number is carried as the numeric literal it was read from. Of the IEEE double that
  the literal denotes the model computes only whether it is zero (section \<^verbatim>\<open>ToBoolean\<close>);
  the serializer writes the literal back, where \<^verbatim>\<open>JSON.stringify\<close> writes the shortest
  decimal of the double. An object is the list of its own properties in insertion order.
\<close>

datatype jsval =
    JUndefined
  | JNull
  | JBool bool
  | JNum jstring
  | JStr jstring
  | JArr "jsval list"
  | JObj "(jstring \<times> jsval) list"

text \<open>
  What can go wrong: a TypeError raised by an expression of the program, and an exception
  raised inside the libraries (React, dnd-kit) while they render.
\<close>

datatype error = TypeError | LibraryError

text \<open>\<^verbatim>\<open>Array.isArray(v)\<close>, \<^verbatim>\<open>typeof v === 'object'\<close>, and the elements of an array.\<close>

fun isArray :: "jsval \<Rightarrow> bool" where
  "isArray (JArr vs) = True"
| "isArray _ = False"

fun typeof_object :: "jsval \<Rightarrow> bool" where
  "typeof_object JNull = True"
| "typeof_object (JArr vs) = True"
| "typeof_object (JObj kvs) = True"
| "typeof_object _ = False"

fun elements :: "jsval \<Rightarrow> jsval list" where
  "elements (JArr vs) = vs"
| "elements _ = []"

text \<open>
  The property read \<^verbatim>\<open>v.k\<close>. On \<^verbatim>\<open>null\<close> and \<^verbatim>\<open>undefined\<close> it throws a TypeError. On an
  object it is the own property or \<^verbatim>\<open>undefined\<close>. The program reads only the keys
  \<^verbatim>\<open>id\<close>, \<^verbatim>\<open>items\<close> and \<^verbatim>\<open>title\<close>, which no array, string, number or boolean has and
  which are not inherited from a prototype, so there the read is \<^verbatim>\<open>undefined\<close>.
\<close>

fun get_prop :: "jsval \<Rightarrow> jstring \<Rightarrow> error + jsval" where
  "get_prop JUndefined k = Inl TypeError"
| "get_prop JNull k = Inl TypeError"
| "get_prop (JObj kvs) k = Inr (case map_of kvs k of None \<Rightarrow> JUndefined | Some v \<Rightarrow> v)"
| "get_prop v k = Inr JUndefined"

text \<open>The same read where the source has already established that the value is not nullish.\<close>

definition read_prop :: "jsval \<Rightarrow> jstring \<Rightarrow> jsval" where
  "read_prop v k = (case get_prop v k of Inl e \<Rightarrow> JUndefined | Inr x \<Rightarrow> x)"

section \<open>The built-in \<^verbatim>\<open>JSON.stringify(v, null, 2)\<close>\<close>

text \<open>
  \<^verbatim>\<open>JSON.stringify\<close> and \<^verbatim>\<open>JSON.parse\<close> are built-ins of the platform (ECMA-262, 25.5);
  they are modelled here from the standard so that the handlers can be run on concrete
  texts. \<^verbatim>\<open>QuoteJSONString\<close> escapes the quote, the backslash and the control characters,
  writes a lone surrogate as \<^verbatim>\<open>\uXXXX\<close> and keeps a surrogate pair.
\<close>

definition hex_digit :: "code_unit \<Rightarrow> code_unit" where
  "hex_digit d = (if d < 10 then 0x30 + d else 0x57 + d)"

definition unicode_escape :: "code_unit \<Rightarrow> jstring" where
  "unicode_escape c =
     [0x5C, 0x75, hex_digit (c div 0x1000), hex_digit (c div 0x100 mod 0x10),
      hex_digit (c div 0x10 mod 0x10), hex_digit (c mod 0x10)]"

definition is_high_surrogate :: "code_unit \<Rightarrow> bool" where
  "is_high_surrogate c = (0xD800 \<le> c \<and> c \<le> 0xDBFF)"

definition is_low_surrogate :: "code_unit \<Rightarrow> bool" where
  "is_low_surrogate c = (0xDC00 \<le> c \<and> c \<le> 0xDFFF)"

fun quote_chars :: "jstring \<Rightarrow> jstring" where
  "quote_chars [] = []"
| "quote_chars (c # cs) =
    (if c = 0x08 then [0x5C, 0x62] @ quote_chars cs
     else if c = 0x09 then [0x5C, 0x74] @ quote_chars cs
     else if c = 0x0A then [0x5C, 0x6E] @ quote_chars cs
     else if c = 0x0C then [0x5C, 0x66] @ quote_chars cs
     else if c = 0x0D then [0x5C, 0x72] @ quote_chars cs
     else if c = 0x22 then [0x5C, 0x22] @ quote_chars cs
     else if c = 0x5C then [0x5C, 0x5C] @ quote_chars cs
     else if c < 0x20 then unicode_escape c @ quote_chars cs
     else if is_high_surrogate c then
       (case cs of
          [] \<Rightarrow> unicode_escape c
        | d # ds \<Rightarrow>
            if is_low_surrogate d then c # d # quote_chars ds
            else unicode_escape c @ quote_chars cs)
     else if is_low_surrogate c then unicode_escape c @ quote_chars cs
     else c # quote_chars cs)"

definition quote :: "jstring \<Rightarrow> jstring" where
  "quote s = [0x22] @ quote_chars s @ [0x22]"

text \<open>The gap is two spaces; \<open>indent n\<close> is the indentation at nesting depth \<open>n\<close>.\<close>

definition indent :: "nat \<Rightarrow> jstring" where
  "indent n = replicate (2 * n) 0x20"

fun join :: "'a list \<Rightarrow> 'a list list \<Rightarrow> 'a list" where
  "join sep [] = []"
| "join sep [x] = x"
| "join sep (x # y # ys) = x @ sep @ join sep (y # ys)"

text \<open>
  \<^verbatim>\<open>SerializeJSONProperty\<close> at depth \<open>n\<close>. An \<^verbatim>\<open>undefined\<close> array element is written
  \<^verbatim>\<open>null\<close>; an object property whose value is \<^verbatim>\<open>undefined\<close> is left out.
\<close>

fun ser :: "nat \<Rightarrow> jsval \<Rightarrow> jstring" where
  "ser n JUndefined = js ''null''"
| "ser n JNull = js ''null''"
| "ser n (JBool b) = (if b then js ''true'' else js ''false'')"
| "ser n (JNum l) = l"
| "ser n (JStr s) = quote s"
| "ser n (JArr vs) =
     (if vs = [] then js ''[]''
      else [0x5B, 0x0A] @ indent (Suc n)
           @ join ([0x2C, 0x0A] @ indent (Suc n)) (map (ser (Suc n)) vs)
           @ [0x0A] @ indent n @ [0x5D])"
| "ser n (JObj kvs) =
     (let members =
        map (\<lambda>kv. quote (fst kv) @ [0x3A, 0x20] @ ser (Suc n) (snd kv))
          (filter (\<lambda>kv. snd kv \<noteq> JUndefined) kvs)
      in if members = [] then js ''{}''
         else [0x7B, 0x0A] @ indent (Suc n)
              @ join ([0x2C, 0x0A] @ indent (Suc n)) members
              @ [0x0A] @ indent n @ [0x7D])"

definition JSON_stringify :: "jsval \<Rightarrow> jstring option" where
  "JSON_stringify v = (if v = JUndefined then None else Some (ser 0 v))"

text \<open>On an object literal \<^verbatim>\<open>JSON.stringify\<close> always returns a string.\<close>

definition stringify_object :: "(jstring \<times> jsval) list \<Rightarrow> jstring" where
  "stringify_object kvs = ser 0 (JObj kvs)"

section \<open>The built-in \<^verbatim>\<open>JSON.parse\<close>\<close>

subsection \<open>Strings and numbers\<close>

definition hex_value :: "code_unit \<Rightarrow> code_unit option" where
  "hex_value c =
     (if 0x30 \<le> c \<and> c \<le> 0x39 then Some (c - 0x30)
      else if 0x61 \<le> c \<and> c \<le> 0x66 then Some (c - 0x57)
      else if 0x41 \<le> c \<and> c \<le> 0x46 then Some (c - 0x37)
      else None)"

definition hex4 :: "jstring \<Rightarrow> code_unit option" where
  "hex4 hs =
     (case map hex_value hs of
        [Some a, Some b, Some c, Some d] \<Rightarrow> Some (((a * 0x10 + b) * 0x10 + c) * 0x10 + d)
      | _ \<Rightarrow> None)"

definition unescape :: "code_unit \<Rightarrow> code_unit option" where
  "unescape e =
     (if e = 0x22 then Some 0x22
      else if e = 0x5C then Some 0x5C
      else if e = 0x2F then Some 0x2F
      else if e = 0x62 then Some 0x08
      else if e = 0x66 then Some 0x0C
      else if e = 0x6E then Some 0x0A
      else if e = 0x72 then Some 0x0D
      else if e = 0x74 then Some 0x09
      else None)"

definition scanned :: "code_unit \<Rightarrow> (jstring \<times> jstring) option \<Rightarrow> (jstring \<times> jstring) option" where
  "scanned c r = map_option (\<lambda>(s, rest). (c # s, rest)) r"

text \<open>
  The characters of a string after its opening quote: the string's value and the text
  after the closing quote.
\<close>

fun scan_string :: "jstring \<Rightarrow> (jstring \<times> jstring) option" where
  "scan_string [] = None"
| "scan_string (c # cs) =
    (if c = 0x22 then Some ([], cs)
     else if c = 0x5C then
       (case cs of
          [] \<Rightarrow> None
        | e # es \<Rightarrow>
            if e = 0x75 then
              (case hex4 (take 4 es) of
                 None \<Rightarrow> None
               | Some u \<Rightarrow> scanned u (scan_string (drop 4 es)))
            else
              (case unescape e of
                 None \<Rightarrow> None
               | Some u \<Rightarrow> scanned u (scan_string es)))
     else if c < 0x20 then None
     else scanned c (scan_string cs))"

definition is_digit :: "code_unit \<Rightarrow> bool" where
  "is_digit c = (0x30 \<le> c \<and> c \<le> 0x39)"

definition scan_digits :: "jstring \<Rightarrow> jstring \<times> jstring" where
  "scan_digits cs = (takeWhile is_digit cs, dropWhile is_digit cs)"

definition scan_sign :: "code_unit list \<Rightarrow> jstring \<Rightarrow> jstring \<times> jstring" where
  "scan_sign signs cs =
     (case cs of
        [] \<Rightarrow> ([], [])
      | c # r \<Rightarrow> if c \<in> set signs then ([c], r) else ([], cs))"

definition scan_frac :: "jstring \<Rightarrow> (jstring \<times> jstring) option" where
  "scan_frac cs =
     (case cs of
        [] \<Rightarrow> Some ([], [])
      | c # r \<Rightarrow>
          if c = 0x2E then
            (let (ds, r') = scan_digits r
             in if ds = [] then None else Some (c # ds, r'))
          else Some ([], cs))"

definition scan_exp :: "jstring \<Rightarrow> (jstring \<times> jstring) option" where
  "scan_exp cs =
     (case cs of
        [] \<Rightarrow> Some ([], [])
      | c # r \<Rightarrow>
          if c = 0x65 \<or> c = 0x45 then
            (let (sg, r1) = scan_sign [0x2B, 0x2D] r;
                 (ds, r2) = scan_digits r1
             in if ds = [] then None else Some (c # sg @ ds, r2))
          else Some ([], cs))"

text \<open>A number: optional minus, integer part without a leading zero, fraction, exponent.\<close>

definition scan_number :: "jstring \<Rightarrow> (jstring \<times> jstring) option" where
  "scan_number cs =
     (let (sg, r0) = scan_sign [0x2D] cs;
          (ip, r1) = scan_digits r0
      in if ip = [] \<or> (hd ip = 0x30 \<and> 1 < length ip) then None
         else
           (case scan_frac r1 of
              None \<Rightarrow> None
            | Some (fp, r2) \<Rightarrow>
                (case scan_exp r2 of
                   None \<Rightarrow> None
                 | Some (ep, r3) \<Rightarrow> Some (sg @ ip @ fp @ ep, r3))))"

lemma scan_string_shorter:
  "scan_string cs = Some (s, rest) \<Longrightarrow> length rest \<le> length cs"
proof (induction cs arbitrary: s rest rule: scan_string.induct)
  case 1
  then show ?case by simp
next
  case (2 c cs)
  then show ?case
    by (auto simp: scanned_def split: if_splits list.splits option.splits) fastforce+
qed

lemma scan_digits_append: "scan_digits xs = (a, b) \<Longrightarrow> xs = a @ b"
  by (auto simp: scan_digits_def)

lemma scan_sign_append: "scan_sign sg xs = (a, b) \<Longrightarrow> xs = a @ b"
  by (auto simp: scan_sign_def split: list.splits if_splits)

lemma scan_frac_append: "scan_frac xs = Some (a, b) \<Longrightarrow> xs = a @ b"
  by (auto simp: scan_frac_def split: list.splits if_splits prod.splits
           dest: scan_digits_append)

lemma scan_exp_append: "scan_exp xs = Some (a, b) \<Longrightarrow> xs = a @ b"
  by (auto simp: scan_exp_def split: list.splits if_splits prod.splits
           dest!: scan_digits_append scan_sign_append)

lemma scan_number_append:
  assumes "scan_number cs = Some (l, rest)"
  shows "cs = l @ rest \<and> l \<noteq> []"
proof -
  from assms obtain sg r0 ip r1 fp r2 ep where
    parts: "scan_sign [0x2D] cs = (sg, r0)" "scan_digits r0 = (ip, r1)" "ip \<noteq> []"
      "scan_frac r1 = Some (fp, r2)" "scan_exp r2 = Some (ep, rest)"
      "l = sg @ ip @ fp @ ep"
    by (auto simp: scan_number_def split: prod.splits if_splits option.splits)
  have "cs = sg @ ip @ fp @ ep @ rest"
    using scan_sign_append[OF parts(1)] scan_digits_append[OF parts(2)]
      scan_frac_append[OF parts(4)] scan_exp_append[OF parts(5)] by simp
  with parts(3,6) show ?thesis by simp
qed

lemma scan_number_shorter:
  "scan_number cs = Some (l, rest) \<Longrightarrow> length rest < length cs"
  by (drule scan_number_append) (cases l, auto)

subsection \<open>Tokens\<close>

datatype token =
    TLBrace | TRBrace | TLBrack | TRBrack | TColon | TComma
  | TString jstring | TNumber jstring | TTrue | TFalse | TNull

definition is_ws :: "code_unit \<Rightarrow> bool" where
  "is_ws c = (c = 0x20 \<or> c = 0x09 \<or> c = 0x0A \<or> c = 0x0D)"

definition starts_with :: "jstring \<Rightarrow> jstring \<Rightarrow> bool" where
  "starts_with p cs = (take (length p) cs = p)"

definition emit :: "token \<Rightarrow> token list option \<Rightarrow> token list option" where
  "emit t r = map_option ((#) t) r"

function tokenize :: "jstring \<Rightarrow> token list option" where
  "tokenize [] = Some []"
| "tokenize (c # cs) =
    (if is_ws c then tokenize cs
     else if c = 0x7B then emit TLBrace (tokenize cs)
     else if c = 0x7D then emit TRBrace (tokenize cs)
     else if c = 0x5B then emit TLBrack (tokenize cs)
     else if c = 0x5D then emit TRBrack (tokenize cs)
     else if c = 0x3A then emit TColon (tokenize cs)
     else if c = 0x2C then emit TComma (tokenize cs)
     else if c = 0x22 then
       (case scan_string cs of
          None \<Rightarrow> None
        | Some (s, rest) \<Rightarrow> emit (TString s) (tokenize rest))
     else if c = 0x2D \<or> is_digit c then
       (case scan_number (c # cs) of
          None \<Rightarrow> None
        | Some (l, rest) \<Rightarrow> emit (TNumber l) (tokenize rest))
     else if starts_with (js ''true'') (c # cs) then emit TTrue (tokenize (drop 3 cs))
     else if starts_with (js ''false'') (c # cs) then emit TFalse (tokenize (drop 4 cs))
     else if starts_with (js ''null'') (c # cs) then emit TNull (tokenize (drop 3 cs))
     else None)"
  by pat_completeness auto
termination
  by (relation "measure length")
     (auto dest: scan_string_shorter scan_number_shorter simp: less_Suc_eq_le)

subsection \<open>The grammar, as a pushdown automaton over the tokens\<close>

text \<open>
  A frame is an array or object under construction; \<open>FKey ms k\<close> is an object whose
  member \<open>k\<close> awaits its value. A repeated key keeps its first position and takes the
  last value, as \<^verbatim>\<open>CreateDataProperty\<close> does. (The reordering of integer-like keys is
  not modelled; no key of this program is one.)
\<close>

datatype frame =
    FArr "jsval list"
  | FObj "(jstring \<times> jsval) list"
  | FKey "(jstring \<times> jsval) list" jstring

datatype expect =
    ExpValue | ExpValueOrClose | ExpKeyOrClose | ExpKey | ExpColon | ExpCommaOrClose
  | Done jsval

fun close_value :: "jsval \<Rightarrow> frame list \<Rightarrow> (expect \<times> frame list) option" where
  "close_value v [] = Some (Done v, [])"
| "close_value v (FArr es # st) = Some (ExpCommaOrClose, FArr (es @ [v]) # st)"
| "close_value v (FKey ms k # st) = Some (ExpCommaOrClose, FObj (AList.update k v ms) # st)"
| "close_value v (FObj ms # st) = None"

fun atom :: "token \<Rightarrow> jsval option" where
  "atom (TString s) = Some (JStr s)"
| "atom (TNumber l) = Some (JNum l)"
| "atom TTrue = Some (JBool True)"
| "atom TFalse = Some (JBool False)"
| "atom TNull = Some JNull"
| "atom _ = None"

definition begin_value :: "token \<Rightarrow> frame list \<Rightarrow> (expect \<times> frame list) option" where
  "begin_value t st =
     (if t = TLBrack then Some (ExpValueOrClose, FArr [] # st)
      else if t = TLBrace then Some (ExpKeyOrClose, FObj [] # st)
      else (case atom t of None \<Rightarrow> None | Some v \<Rightarrow> close_value v st))"

definition end_array :: "frame list \<Rightarrow> (expect \<times> frame list) option" where
  "end_array st = (case st of FArr es # st' \<Rightarrow> close_value (JArr es) st' | _ \<Rightarrow> None)"

definition end_object :: "frame list \<Rightarrow> (expect \<times> frame list) option" where
  "end_object st = (case st of FObj ms # st' \<Rightarrow> close_value (JObj ms) st' | _ \<Rightarrow> None)"

definition begin_member :: "token \<Rightarrow> frame list \<Rightarrow> (expect \<times> frame list) option" where
  "begin_member t st =
     (case (t, st) of
        (TString k, FObj ms # st') \<Rightarrow> Some (ExpColon, FKey ms k # st')
      | _ \<Rightarrow> None)"

definition next_item :: "frame list \<Rightarrow> (expect \<times> frame list) option" where
  "next_item st =
     (case st of
        FArr es # st' \<Rightarrow> Some (ExpValue, st)
      | FObj ms # st' \<Rightarrow> Some (ExpKey, st)
      | _ \<Rightarrow> None)"

fun pstep :: "expect \<Rightarrow> frame list \<Rightarrow> token \<Rightarrow> (expect \<times> frame list) option" where
  "pstep ExpValue st t = begin_value t st"
| "pstep ExpValueOrClose st t = (if t = TRBrack then end_array st else begin_value t st)"
| "pstep ExpKeyOrClose st t = (if t = TRBrace then end_object st else begin_member t st)"
| "pstep ExpKey st t = begin_member t st"
| "pstep ExpColon st t = (if t = TColon then Some (ExpValue, st) else None)"
| "pstep ExpCommaOrClose st t =
     (if t = TComma then next_item st
      else if t = TRBrack then end_array st
      else if t = TRBrace then end_object st
      else None)"
| "pstep (Done v) st t = None"

fun run :: "expect \<times> frame list \<Rightarrow> token list \<Rightarrow> (expect \<times> frame list) option" where
  "run c [] = Some c"
| "run c (t # ts) = (case pstep (fst c) (snd c) t of None \<Rightarrow> None | Some c' \<Rightarrow> run c' ts)"

text \<open>\<open>None\<close> is the SyntaxError that \<^verbatim>\<open>JSON.parse\<close> throws.\<close>

definition JSON_parse :: "jstring \<Rightarrow> jsval option" where
  "JSON_parse text =
     (case tokenize text of
        None \<Rightarrow> None
      | Some ts \<Rightarrow>
          (case run (ExpValue, []) ts of
             Some (Done v, st) \<Rightarrow> Some v
           | _ \<Rightarrow> None))"

section \<open>\<^verbatim>\<open>ToBoolean\<close>\<close>

text \<open>
  A number is falsy exactly when it is zero. \<^verbatim>\<open>JSON.parse\<close> gives the double nearest to the
  value of the literal (ties to even), and that double is zero exactly when the absolute
  value is at most \<open>2\<^sup>-\<^sup>1\<^sup>0\<^sup>7\<^sup>5\<close>, half of the smallest positive double. The value of the
  literal is \<open>m * 10\<^sup>e\<close> for the number \<open>m\<close> written by the digits of its integer and
  fraction parts and the exponent \<open>e\<close>, the written exponent less the number of fraction
  digits.
\<close>

definition digits_value :: "jstring \<Rightarrow> nat" where
  "digits_value ds = foldl (\<lambda>a c. 10 * a + unat (c - 0x30)) 0 ds"

definition literal_parts :: "jstring \<Rightarrow> nat \<times> int" where
  "literal_parts l =
     (let (sg, r0) = scan_sign [0x2D] l;
          (ip, r1) = scan_digits r0;
          (fp, r2) = (case r1 of
                        [] \<Rightarrow> ([], [])
                      | c # r \<Rightarrow> if c = 0x2E then scan_digits r else ([], r1));
          ex = (case r2 of
                  [] \<Rightarrow> 0
                | c # r \<Rightarrow>
                    if c = 0x65 \<or> c = 0x45 then
                      (let (es, r3) = scan_sign [0x2B, 0x2D] r;
                           (ed, r4) = scan_digits r3
                       in if es = [0x2D] then - int (digits_value ed) else int (digits_value ed))
                    else 0)
      in (digits_value (ip @ fp), ex - int (length fp)))"

definition rounds_to_zero :: "jstring \<Rightarrow> bool" where
  "rounds_to_zero l =
     (let (m, e) = literal_parts l
      in m = 0 \<or> (e < 0 \<and> m * 2 ^ 1075 \<le> 10 ^ nat (- e)))"

fun truthy :: "jsval \<Rightarrow> bool" where
  "truthy JUndefined = False"
| "truthy JNull = False"
| "truthy (JBool b) = b"
| "truthy (JNum l) = (\<not> rounds_to_zero l)"
| "truthy (JStr s) = (s \<noteq> [])"
| "truthy (JArr vs) = True"
| "truthy (JObj kvs) = True"

section \<open>The component's state\<close>

text \<open>
  \<^verbatim>\<open>type LinkItem = { id: string; label: string; url: string }\<close>, and the object it is
  at run time.
\<close>

record LinkItem =
  link_id :: jstring
  link_label :: jstring
  link_url :: jstring

definition of_LinkItem :: "LinkItem \<Rightarrow> jsval" where
  "of_LinkItem l =
     JObj [(js ''id'', JStr (link_id l)), (js ''label'', JStr (link_label l)),
           (js ''url'', JStr (link_url l))]"

text \<open>The second parameter of \<^verbatim>\<open>updateLink\<close>: \<^verbatim>\<open>'label' | 'url'\<close>.\<close>

datatype field = Label | Url

fun field_name :: "field \<Rightarrow> jstring" where
  "field_name Label = js ''label''"
| "field_name Url = js ''url''"

fun set_field :: "field \<Rightarrow> jstring \<Rightarrow> LinkItem \<Rightarrow> LinkItem" where
  "set_field Label v l = l\<lparr>link_label := v\<rparr>"
| "set_field Url v l = l\<lparr>link_url := v\<rparr>"

text \<open>
  The \<^verbatim>\<open>useState\<close> variables of \<^verbatim>\<open>App\<close>. \<open>linksRef\<close> is the identity of the array object
  held in \<open>links\<close>: React compares effect dependencies with \<^verbatim>\<open>Object.is\<close>, and every
  \<^verbatim>\<open>setLinks\<close> of the source stores a freshly allocated array (\<^verbatim>\<open>map\<close>, \<^verbatim>\<open>filter\<close>, a spread,
  \<^verbatim>\<open>arrayMove\<close>, the result of \<^verbatim>\<open>JSON.parse\<close>).
\<close>

record State =
  title :: jsval
  links :: "jsval list"
  linksRef :: nat
  isJsonOpen :: bool
  isReadOnly :: bool
  jsonString :: jstring
  jsonError :: "jstring option"

definition setLinks :: "jsval list \<Rightarrow> State \<Rightarrow> State" where
  "setLinks v s = s\<lparr>links := v, linksRef := Suc (linksRef s)\<rparr>"

definition setTitle :: "jsval \<Rightarrow> State \<Rightarrow> State" where
  "setTitle v s = s\<lparr>title := v\<rparr>"

definition setJsonString :: "jstring \<Rightarrow> State \<Rightarrow> State" where
  "setJsonString v s = s\<lparr>jsonString := v\<rparr>"

definition setJsonError :: "jstring option \<Rightarrow> State \<Rightarrow> State" where
  "setJsonError v s = s\<lparr>jsonError := v\<rparr>"

definition setIsJsonOpen :: "bool \<Rightarrow> State \<Rightarrow> State" where
  "setIsJsonOpen v s = s\<lparr>isJsonOpen := v\<rparr>"

definition setIsReadOnly :: "bool \<Rightarrow> State \<Rightarrow> State" where
  "setIsReadOnly v s = s\<lparr>isReadOnly := v\<rparr>"

text \<open>The initial values of the \<^verbatim>\<open>useState\<close> calls (lines 163 to 172).\<close>

definition initial :: State where
  "initial =
     \<lparr>title = JStr (js ''My Useful Links''),
      links =
        [of_LinkItem \<lparr>link_id = js ''1'', link_label = js ''Google'',
                       link_url = js ''https://google.com''\<rparr>,
         of_LinkItem \<lparr>link_id = js ''2'', link_label = js ''GitHub'',
                       link_url = js ''https://github.com''\<rparr>],
      linksRef = 0, isJsonOpen = False, isReadOnly = False,
      jsonString = [], jsonError = None\<rparr>"

section \<open>The effect that mirrors the state into the JSON text\<close>

text \<open>
  Lines 187 to 198: when the panel is closed, \<^verbatim>\<open>jsonString\<close> becomes
  \<^verbatim>\<open>JSON.stringify({title: title, items: links}, null, 2)\<close>.
\<close>

definition data_of :: "jsval \<Rightarrow> jsval list \<Rightarrow> (jstring \<times> jsval) list" where
  "data_of t ls = [(js ''title'', t), (js ''items'', JArr ls)]"

definition mirror :: "State \<Rightarrow> jstring" where
  "mirror s = stringify_object (data_of (title s) (links s))"

definition sync_effect :: "State \<Rightarrow> State" where
  "sync_effect s = (if \<not> isJsonOpen s then setJsonString (mirror s) s else s)"

text \<open>
  The dependency array is \<^verbatim>\<open>[links, title, isJsonOpen]\<close>: after the render that follows a
  handler the effect runs when one of the three changed. (Whenever a handler stores a title
  that is not a string it also stores a new array, so comparing titles by value is exact.)
\<close>

definition deps_changed :: "State \<Rightarrow> State \<Rightarrow> bool" where
  "deps_changed s s' =
     (linksRef s' \<noteq> linksRef s \<or> title s' \<noteq> title s \<or> isJsonOpen s' \<noteq> isJsonOpen s)"

definition after_render :: "State \<Rightarrow> State \<Rightarrow> State" where
  "after_render s s' = (if deps_changed s s' then sync_effect s' else s')"

section \<open>The handlers\<close>

subsection \<open>\<^verbatim>\<open>addLink\<close>, \<^verbatim>\<open>updateLink\<close>, \<^verbatim>\<open>removeLink\<close>\<close>

text \<open>
  \<^verbatim>\<open>crypto.randomUUID()\<close> is an input of the model: the new identifier comes with the event.
\<close>

definition addLink :: "jstring \<Rightarrow> State \<Rightarrow> State" where
  "addLink uuid s =
     (let newLink = of_LinkItem \<lparr>link_id = uuid, link_label = [], link_url = []\<rparr>
      in setLinks (links s @ [newLink]) s)"

text \<open>
  \<^verbatim>\<open>Array.prototype.map\<close> and \<^verbatim>\<open>filter\<close> with a callback that may throw: the first
  exception ends the call.
\<close>

fun map_throwing :: "('a \<Rightarrow> error + 'b) \<Rightarrow> 'a list \<Rightarrow> error + 'b list" where
  "map_throwing f [] = Inr []"
| "map_throwing f (x # xs) =
     (case f x of
        Inl e \<Rightarrow> Inl e
      | Inr y \<Rightarrow> (case map_throwing f xs of Inl e \<Rightarrow> Inl e | Inr ys \<Rightarrow> Inr (y # ys)))"

fun filter_throwing :: "('a \<Rightarrow> error + bool) \<Rightarrow> 'a list \<Rightarrow> error + 'a list" where
  "filter_throwing p [] = Inr []"
| "filter_throwing p (x # xs) =
     (case p x of
        Inl e \<Rightarrow> Inl e
      | Inr b \<Rightarrow>
          (case filter_throwing p xs of
             Inl e \<Rightarrow> Inl e
           | Inr ys \<Rightarrow> Inr (if b then x # ys else ys)))"

text \<open>
  \<^verbatim>\<open>link.id === id\<close> with \<open>id\<close> a string: true exactly when the property is that string.
\<close>

definition id_is :: "jstring \<Rightarrow> jsval \<Rightarrow> error + bool" where
  "id_is i link = (case get_prop link (js ''id'') of Inl e \<Rightarrow> Inl e | Inr v \<Rightarrow> Inr (v = JStr i))"

text \<open>
  \<^verbatim>\<open>{ ...link, [field]: value }\<close>, evaluated only for a \<open>link\<close> whose \<open>id\<close> is a string, that
  is for an object: the own properties in order, with the named one replaced in place or
  added last.
\<close>

fun spread_with :: "jsval \<Rightarrow> jstring \<Rightarrow> jsval \<Rightarrow> jsval" where
  "spread_with (JObj kvs) k v = JObj (AList.update k v kvs)"
| "spread_with x k v = JObj [(k, v)]"

definition updateLink_item :: "jstring \<Rightarrow> field \<Rightarrow> jstring \<Rightarrow> jsval \<Rightarrow> error + jsval" where
  "updateLink_item i f v link =
     (case id_is i link of
        Inl e \<Rightarrow> Inl e
      | Inr b \<Rightarrow> Inr (if b then spread_with link (field_name f) (JStr v) else link))"

text \<open>
  Lines 206 to 212. The updater function passed to \<^verbatim>\<open>setLinks\<close> runs in React's render
  phase; an exception there unmounts the component, which is the result \<open>Inl\<close>.
\<close>

definition updateLink :: "jstring \<Rightarrow> field \<Rightarrow> jstring \<Rightarrow> State \<Rightarrow> error + State" where
  "updateLink i f v s =
     (case map_throwing (updateLink_item i f v) (links s) of
        Inl e \<Rightarrow> Inl e
      | Inr items \<Rightarrow> Inr (setLinks items s))"

definition removeLink :: "jstring \<Rightarrow> State \<Rightarrow> error + State" where
  "removeLink i s =
     (case filter_throwing (\<lambda>link. map_sum (\<lambda>e. e) Not (id_is i link)) (links s) of
        Inl e \<Rightarrow> Inl e
      | Inr items \<Rightarrow> Inr (setLinks items s))"

subsection \<open>\<^verbatim>\<open>handleDragEnd\<close>\<close>

text \<open>
  \<^verbatim>\<open>findIndex\<close> returns \<open>-1\<close> when no element matches. \<^verbatim>\<open>arrayMove\<close> is the function of
  the library \<^verbatim>\<open>@dnd-kit/sortable\<close>:
  \<^verbatim>\<open>const newArray = array.slice();
  newArray.splice(to < 0 ? newArray.length + to : to, 0, newArray.splice(from, 1)[0]);
  return newArray;\<close>
  The first argument of the outer \<^verbatim>\<open>splice\<close> is evaluated before the inner \<^verbatim>\<open>splice\<close>
  removes the element. \<^verbatim>\<open>splice\<close> clamps its start index: a negative one counts from
  the end.
\<close>

fun findIndex :: "('a \<Rightarrow> error + bool) \<Rightarrow> 'a list \<Rightarrow> error + int" where
  "findIndex p [] = Inr (- 1)"
| "findIndex p (x # xs) =
     (case p x of
        Inl e \<Rightarrow> Inl e
      | Inr b \<Rightarrow>
          if b then Inr 0
          else (case findIndex p xs of
                  Inl e \<Rightarrow> Inl e
                | Inr k \<Rightarrow> Inr (if k < 0 then - 1 else k + 1)))"

definition splice_start :: "int \<Rightarrow> nat \<Rightarrow> nat" where
  "splice_start i len = (if i < 0 then nat (max (int len + i) 0) else min (nat i) len)"

definition arrayMove :: "jsval list \<Rightarrow> int \<Rightarrow> int \<Rightarrow> jsval list" where
  "arrayMove array from to =
     (let target = (if to < 0 then int (length array) + to else to);
          f = splice_start from (length array);
          removed = (if f < length array then array ! f else JUndefined);
          newArray = take f array @ drop (Suc f) array;
          t = splice_start target (length newArray)
      in take t newArray @ [removed] @ drop t newArray)"

text \<open>
  The part of a \<^verbatim>\<open>DragEndEvent\<close> that the handler reads: \<^verbatim>\<open>active.id\<close>, and \<^verbatim>\<open>over.id\<close>
  when \<^verbatim>\<open>over\<close> is not null. The identifiers are those given to \<^verbatim>\<open>useSortable\<close>, the
  \<open>id\<close> strings of the rows.
\<close>

record DragEndEvent =
  active :: jstring
  over :: "jstring option"

definition handleDragEnd :: "DragEndEvent \<Rightarrow> State \<Rightarrow> error + State" where
  "handleDragEnd event s =
     (case over event of
        None \<Rightarrow> Inr s
      | Some over_id \<Rightarrow>
          if active event \<noteq> over_id then
            (case findIndex (id_is (active event)) (links s) of
               Inl e \<Rightarrow> Inl e
             | Inr oldIndex \<Rightarrow>
                 (case findIndex (id_is over_id) (links s) of
                    Inl e \<Rightarrow> Inl e
                  | Inr newIndex \<Rightarrow> Inr (setLinks (arrayMove (links s) oldIndex newIndex) s)))
          else Inr s)"

subsection \<open>\<^verbatim>\<open>handleJsonChange\<close>\<close>

text \<open>
  Lines 226 to 251. In the \<^verbatim>\<open>try\<close> block only \<^verbatim>\<open>JSON.parse\<close> can throw, and it is the
  first statement; the \<^verbatim>\<open>catch\<close> sets the syntax error.
\<close>

definition handleJsonChange :: "jstring \<Rightarrow> State \<Rightarrow> State" where
  "handleJsonChange newValue s =
     (if isReadOnly s then s
      else
        let s1 = setJsonString newValue s in
        (case JSON_parse newValue of
           None \<Rightarrow> setJsonError (Some (js ''Invalid JSON syntax'')) s1
         | Some parsed \<Rightarrow>
             if isArray parsed then
               setJsonError None (setLinks (elements parsed) s1)
             else if truthy parsed \<and> typeof_object parsed
                     \<and> isArray (read_prop parsed (js ''items'')) then
               (let s2 = setLinks (elements (read_prop parsed (js ''items''))) s1;
                    s3 = (if truthy (read_prop parsed (js ''title''))
                          then setTitle (read_prop parsed (js ''title'')) s2 else s2)
                in setJsonError None s3)
             else
               setJsonError
                 (Some (js ''Invalid format: Expected array or { title, items: [] }'')) s1))"

subsection \<open>\<^verbatim>\<open>downloadJson\<close> and \<^verbatim>\<open>uploadJson\<close>\<close>

text \<open>
  Line 262: \<^verbatim>\<open>title.replace(/[^a-z0-9]/gi, '_').toLowerCase() || 'links'\<close>, followed by
  \<^verbatim>\<open>.json\<close>. The regular expression has no \<^verbatim>\<open>u\<close> flag, so it works on code units, and
  with the \<^verbatim>\<open>i\<close> flag the class \<^verbatim>\<open>[a-z0-9]\<close> matches exactly the ASCII letters and digits.
  \<^verbatim>\<open>toLowerCase\<close> is applied to a string of ASCII letters, digits and underscores, where it
  is the ASCII mapping. On a title that is not a string \<^verbatim>\<open>title.replace\<close> is a TypeError.
\<close>

definition is_alnum :: "code_unit \<Rightarrow> bool" where
  "is_alnum c =
     ((0x30 \<le> c \<and> c \<le> 0x39) \<or> (0x41 \<le> c \<and> c \<le> 0x5A) \<or> (0x61 \<le> c \<and> c \<le> 0x7A))"

definition replace_non_alnum :: "jstring \<Rightarrow> jstring" where
  "replace_non_alnum t = map (\<lambda>c. if is_alnum c then c else 0x5F) t"

definition lower_ascii :: "code_unit \<Rightarrow> code_unit" where
  "lower_ascii c = (if 0x41 \<le> c \<and> c \<le> 0x5A then c + 0x20 else c)"

definition toLowerCase :: "jstring \<Rightarrow> jstring" where
  "toLowerCase t = map lower_ascii t"

definition download_name :: "jsval \<Rightarrow> error + jstring" where
  "download_name t =
     (case t of
        JStr ts \<Rightarrow>
          (let base = toLowerCase (replace_non_alnum ts)
           in Inr ((if base \<noteq> [] then base else js ''links'') @ js ''.json''))
      | _ \<Rightarrow> Inl TypeError)"

text \<open>
  The text that \<^verbatim>\<open>downloadJson\<close> puts into the file: the data URL carries
  \<^verbatim>\<open>JSON.stringify(data, null, 2)\<close>, percent-encoded by \<^verbatim>\<open>encodeURIComponent\<close> and decoded
  again by the browser; the encoding is not modelled.
\<close>

definition download_text :: "State \<Rightarrow> jstring" where
  "download_text s = stringify_object (data_of (title s) (links s))"

text \<open>
  Lines 268 to 298. The argument is the text of the chosen file (\<open>None\<close>: no file was
  chosen); the second component of the result is the message of \<^verbatim>\<open>alert\<close>, if any.
\<close>

definition reader_onload :: "jstring \<Rightarrow> State \<Rightarrow> State \<times> jstring option" where
  "reader_onload text s =
     (case JSON_parse text of
        None \<Rightarrow> (s, Some (js ''Error parsing JSON file.''))
      | Some parsed \<Rightarrow>
          if isArray parsed then
            (setTitle (JStr (js ''Imported List'')) (setLinks (elements parsed) s), None)
          else if truthy parsed \<and> typeof_object parsed
                  \<and> isArray (read_prop parsed (js ''items'')) then
            (setTitle
               (if truthy (read_prop parsed (js ''title'')) then read_prop parsed (js ''title'')
                else JStr (js ''Untitled List''))
               (setLinks (elements (read_prop parsed (js ''items''))) s), None)
          else (s, Some (js ''File is not a valid LinkList file.'')))"

definition uploadJson :: "jstring option \<Rightarrow> State \<Rightarrow> State \<times> jstring option" where
  "uploadJson file s = (case file of None \<Rightarrow> (s, None) | Some text \<Rightarrow> reader_onload text s)"

section \<open>Events\<close>

text \<open>
  One event of the user interface, its handler, and the render that follows with its
  effect.
\<close>

datatype Event =
    AddLink jstring
  | UpdateLink jstring field jstring
  | RemoveLink jstring
  | DragEnd DragEndEvent
  | TitleChange jstring
  | JsonChange jstring
  | Upload "jstring option"
  | ToggleJsonOpen
  | ToggleReadOnly

fun handler :: "Event \<Rightarrow> State \<Rightarrow> error + State" where
  "handler (AddLink uuid) s = Inr (addLink uuid s)"
| "handler (UpdateLink i f v) s = updateLink i f v s"
| "handler (RemoveLink i) s = removeLink i s"
| "handler (DragEnd ev) s = handleDragEnd ev s"
| "handler (TitleChange v) s = Inr (setTitle (JStr v) s)"
| "handler (JsonChange v) s = Inr (handleJsonChange v s)"
| "handler (Upload file) s = Inr (fst (uploadJson file s))"
| "handler ToggleJsonOpen s = Inr (setIsJsonOpen (\<not> isJsonOpen s) s)"
| "handler ToggleReadOnly s = Inr (setIsReadOnly (\<not> isReadOnly s) s)"

text \<open>
  The render that follows a change of state can throw, and then React unmounts the
  component. The expressions of the program that throw: \<^verbatim>\<open>key={link.id}\<close> in
  \<^verbatim>\<open>links.map\<close> (line 395) on a \<^verbatim>\<open>null\<close> or \<^verbatim>\<open>undefined\<close> element, and in read-only mode
  \<^verbatim>\<open>link.url.startsWith('http')\<close> (line 121) on a truthy \<^verbatim>\<open>url\<close> that is not a string.
\<close>

fun is_string :: "jsval \<Rightarrow> bool" where
  "is_string (JStr s) = True"
| "is_string _ = False"

definition row_throws :: "bool \<Rightarrow> jsval \<Rightarrow> bool" where
  "row_throws readOnly link =
     (readOnly \<and> truthy (read_prop link (js ''url''))
      \<and> \<not> is_string (read_prop link (js ''url'')))"

definition render_throws :: "State \<Rightarrow> bool" where
  "render_throws s =
     list_ex (\<lambda>link. link = JNull \<or> link = JUndefined \<or> row_throws (isReadOnly s) link)
       (links s)"

text \<open>
  One event. When the handler changed no state variable there is no render. Otherwise the
  new state is rendered; the effect runs after a render that did not throw, and the text
  it stores is rendered in turn. What React and dnd-kit themselves throw on a state (an
  object as a child, a value that has no string form) is not in the source: it is the
  parameter \<open>lib\<close>.
\<close>

definition step_with :: "(State \<Rightarrow> bool) \<Rightarrow> Event \<Rightarrow> State \<Rightarrow> error + State" where
  "step_with lib e s =
     (case handler e s of
        Inl err \<Rightarrow> Inl err
      | Inr s' \<Rightarrow>
          if s' = s then Inr s
          else if render_throws s' then Inl TypeError
          else if lib s' then Inl LibraryError
          else
            let s'' = after_render s s'
            in if s'' \<noteq> s' \<and> lib s'' then Inl LibraryError else Inr s'')"

text \<open>The component when the libraries throw nothing.\<close>

definition step :: "Event \<Rightarrow> State \<Rightarrow> error + State" where
  "step e s = step_with (\<lambda>x. False) e s"

text \<open>The state after the first render: the effect has run once.\<close>

definition mounted :: State where
  "mounted = sync_effect initial"

section \<open>The rendered controls\<close>





text \<open>Sample states: the mounted component switched to read-only mode.\<close>

definition locked :: State where
  "locked = setIsReadOnly True mounted"

section \<open>Accepted texts\<close>

text \<open>
  The shape that the two readers of JSON text accept, in the words of the specification:
  an array, or an object whose \<^verbatim>\<open>items\<close> field is an array; and the array that is then
  stored.
\<close>

definition accepted_shape :: "jsval \<Rightarrow> bool" where
  "accepted_shape v =
     (case v of
        JArr vs \<Rightarrow> True
      | JObj kvs \<Rightarrow> (case map_of kvs (js ''items'') of Some (JArr vs) \<Rightarrow> True | _ \<Rightarrow> False)
      | _ \<Rightarrow> False)"

definition accepted_items :: "jsval \<Rightarrow> jsval list" where
  "accepted_items v =
     (case v of
        JArr vs \<Rightarrow> vs
      | JObj kvs \<Rightarrow> (case map_of kvs (js ''items'') of Some (JArr vs) \<Rightarrow> vs | _ \<Rightarrow> [])
      | _ \<Rightarrow> [])"

text \<open>The mounted component with the JSON panel opened.\<close>

definition opened :: State where
  "opened = setIsJsonOpen True mounted"

text \<open>The two link items of the initial state.\<close>

definition two_links :: "LinkItem list" where
  "two_links =
     [\<lparr>link_id = js ''1'', link_label = js ''Google'', link_url = js ''https://google.com''\<rparr>,
      \<lparr>link_id = js ''2'', link_label = js ''GitHub'', link_url = js ''https://github.com''\<rparr>]"

section \<open>Mutations and reachable states\<close>

text \<open>A text that the editor or the upload accepts.\<close>

definition accepts :: "jstring \<Rightarrow> bool" where
  "accepts text = (case JSON_parse text of None \<Rightarrow> False | Some v \<Rightarrow> accepted_shape v)"

text \<open>
  A structured-state mutation: an event whose handler calls \<^verbatim>\<open>setLinks\<close>, or \<^verbatim>\<open>setTitle\<close>
  with another title. These are add, update, remove, a drag onto another row, a title
  edit, and an upload or an edit of the JSON text that is accepted.
\<close>

fun mutates :: "Event \<Rightarrow> State \<Rightarrow> bool" where
  "mutates (AddLink uuid) s = True"
| "mutates (UpdateLink i f v) s = True"
| "mutates (RemoveLink i) s = True"
| "mutates (DragEnd ev) s = (case over ev of None \<Rightarrow> False | Some over_id \<Rightarrow> active ev \<noteq> over_id)"
| "mutates (TitleChange v) s = (JStr v \<noteq> title s)"
| "mutates (JsonChange text) s = (\<not> isReadOnly s \<and> accepts text)"
| "mutates (Upload file) s = (case file of None \<Rightarrow> False | Some text \<Rightarrow> accepts text)"
| "mutates ToggleJsonOpen s = False"
| "mutates ToggleReadOnly s = False"

text \<open>
  The states of the running component, for a given behaviour of the libraries. Every event
  is offered in every state: the textarea is rendered, and not disabled, also while the
  panel is slid out of view.
\<close>

inductive reachable :: "(State \<Rightarrow> bool) \<Rightarrow> State \<Rightarrow> bool" for lib where
  reachable_mounted: "reachable lib mounted"
| reachable_step: "reachable lib s \<Longrightarrow> step_with lib e s = Inr s' \<Longrightarrow> reachable lib s'"

section \<open>Values that survive printing and parsing\<close>

text \<open>
  The values for which the round trip through \<^verbatim>\<open>JSON.stringify\<close> and \<^verbatim>\<open>JSON.parse\<close> is
  proved: null, booleans, strings, arrays and objects with distinct keys. (\<^verbatim>\<open>undefined\<close>
  is not JSON; numbers are left out because their printing is floating point.)
\<close>

fun plain :: "jsval \<Rightarrow> bool" where
  "plain JUndefined = False"
| "plain JNull = True"
| "plain (JBool b) = True"
| "plain (JNum l) = False"
| "plain (JStr s) = True"
| "plain (JArr vs) = (\<forall>v \<in> set vs. plain v)"
| "plain (JObj kvs) = (distinct (map fst kvs) \<and> (\<forall>kv \<in> set kvs. plain (snd kv)))"

text \<open>The tokens of a value, and the two stages of the parser run to an intermediate point.\<close>

fun toks :: "jsval \<Rightarrow> token list" where
  "toks JUndefined = [TNull]"
| "toks JNull = [TNull]"
| "toks (JBool b) = [if b then TTrue else TFalse]"
| "toks (JNum l) = [TNumber l]"
| "toks (JStr s) = [TString s]"
| "toks (JArr vs) = [TLBrack] @ join [TComma] (map toks vs) @ [TRBrack]"
| "toks (JObj kvs) =
     [TLBrace] @ join [TComma] (map (\<lambda>kv. [TString (fst kv), TColon] @ toks (snd kv)) kvs)
     @ [TRBrace]"

definition emits :: "token list \<Rightarrow> token list option \<Rightarrow> token list option" where
  "emits ts r = map_option ((@) ts) r"

definition bind_run :: "(expect \<times> frame list) option \<Rightarrow> token list \<Rightarrow> (expect \<times> frame list) option" where
  "bind_run oc ts = (case oc of None \<Rightarrow> None | Some c \<Rightarrow> run c ts)"

definition value_start :: "expect \<Rightarrow> bool" where
  "value_start e = (e = ExpValue \<or> e = ExpValueOrClose)"

definition key_start :: "expect \<Rightarrow> bool" where
  "key_start e = (e = ExpKey \<or> e = ExpKeyOrClose)"

text \<open>The mounted component after the user has cleared the title.\<close>

definition untitled :: State where
  "untitled = setTitle (JStr []) mounted"

section \<open>The two readers of JSON text\<close>

text \<open>
  The test of the source, \<^verbatim>\<open>Array.isArray(parsed)\<close> or
  \<^verbatim>\<open>parsed && typeof parsed === 'object' && Array.isArray(parsed.items)\<close>, is the accepted
  shape, and both handlers are a case distinction on it.
\<close>

lemma shape_test:
  "(isArray v \<or> (truthy v \<and> typeof_object v \<and> isArray (read_prop v (js ''items''))))
     = accepted_shape v"
  by (cases v)
     (auto simp: accepted_shape_def read_prop_def split: option.splits jsval.splits)

lemma shape_items:
  "accepted_shape v \<Longrightarrow>
     (if isArray v then elements v else elements (read_prop v (js ''items''))) = accepted_items v"
  by (cases v)
     (auto simp: accepted_shape_def accepted_items_def read_prop_def
           split: option.splits jsval.splits)

lemma handleJsonChange_cases:
  "handleJsonChange text s =
     (if isReadOnly s then s
      else case JSON_parse text of
        None \<Rightarrow> setJsonError (Some (js ''Invalid JSON syntax'')) (setJsonString text s)
      | Some v \<Rightarrow>
          if accepted_shape v then
            setJsonError None
              ((if \<not> isArray v \<and> truthy (read_prop v (js ''title''))
                then setTitle (read_prop v (js ''title'')) else (\<lambda>x. x))
                 (setLinks (accepted_items v) (setJsonString text s)))
          else setJsonError (Some (js ''Invalid format: Expected array or { title, items: [] }''))
                 (setJsonString text s))"
  using shape_test[of "the (JSON_parse text)"] shape_items[of "the (JSON_parse text)"]
  by (auto simp: handleJsonChange_def Let_def split: option.splits)

lemma reader_onload_cases:
  "reader_onload text s =
     (case JSON_parse text of
        None \<Rightarrow> (s, Some (js ''Error parsing JSON file.''))
      | Some v \<Rightarrow>
          if accepted_shape v then
            (setTitle
               (if isArray v then JStr (js ''Imported List'')
                else if truthy (read_prop v (js ''title'')) then read_prop v (js ''title'')
                else JStr (js ''Untitled List''))
               (setLinks (accepted_items v) s), None)
          else (s, Some (js ''File is not a valid LinkList file.'')))"
  using shape_test[of "the (JSON_parse text)"] shape_items[of "the (JSON_parse text)"]
  by (auto simp: reader_onload_def Let_def split: option.splits)

lemmas setter_defs =
  setLinks_def setTitle_def setJsonString_def setJsonError_def setIsJsonOpen_def
  setIsReadOnly_def

text \<open>Concrete texts, parsed.\<close>

lemma parse_open_brace: "JSON_parse (js ''{'') = None"
  by code_simp

lemma parse_empty_array: "JSON_parse (js ''[]'') = Some (JArr [])"
  by code_simp

lemma parse_unvalidated:
  "JSON_parse (js ''{\"items\":[1,null]}'') =
     Some (JObj [(js ''items'', JArr [JNum (js ''1''), JNull])])"
  by code_simp

lemma parse_number: "JSON_parse (js ''5'') = Some (JNum (js ''5''))"
  by code_simp

lemma parse_no_title: "JSON_parse (js ''{\"items\":[]}'') = Some (JObj [(js ''items'', JArr [])])"
  by code_simp

lemma parse_empty_title:
  "JSON_parse (js ''{\"title\":\"\",\"items\":[]}'') =
     Some (JObj [(js ''title'', JStr []), (js ''items'', JArr [])])"
  by code_simp

text \<open>A step that returns a state is the handler followed by the effect.\<close>

lemma after_render_same: "after_render s s = s"
  by (simp add: after_render_def deps_changed_def)

lemma step_with_Inr:
  assumes "step_with lib e s = Inr s'"
  shows "\<exists>h. handler e s = Inr h \<and> s' = after_render s h"
  using assms
  by (auto simp: step_with_def Let_def after_render_same split: sum.splits if_splits)

lemma state_neq_linksRef: "linksRef a \<noteq> linksRef b \<Longrightarrow> a \<noteq> b"
  by auto

lemma mounted_facts:
  "\<not> isJsonOpen mounted" "\<not> isReadOnly mounted" "jsonError mounted = None"
  "title mounted = JStr (js ''My Useful Links'')"
  by (simp_all add: mounted_def sync_effect_def initial_def setter_defs)

lemma row_throws_of_LinkItem: "\<not> row_throws b (of_LinkItem l)"
  by (simp add: row_throws_def of_LinkItem_def read_prop_def js_def)

lemma render_throws_typed:
  "links s = map of_LinkItem L \<Longrightarrow> \<not> render_throws s"
proof -
  assume l: "links s = map of_LinkItem L"
  have "of_LinkItem x \<noteq> JNull \<and> of_LinkItem x \<noteq> JUndefined" for x
    by (simp add: of_LinkItem_def)
  then show ?thesis
    by (auto simp: render_throws_def list_ex_iff l row_throws_of_LinkItem)
qed

lemma mounted_renders: "\<not> render_throws mounted"
  by (rule render_throws_typed[of mounted
        "[\<lparr>link_id = js ''1'', link_label = js ''Google'', link_url = js ''https://google.com''\<rparr>,
          \<lparr>link_id = js ''2'', link_label = js ''GitHub'', link_url = js ''https://github.com''\<rparr>]"])
     (simp add: mounted_def sync_effect_def initial_def setter_defs)

lemma render_throws_add:
  "render_throws (s\<lparr>links := links s @ [of_LinkItem l], linksRef := n\<rparr>) = render_throws s"
proof -
  have "of_LinkItem l \<noteq> JNull \<and> of_LinkItem l \<noteq> JUndefined"
    by (simp add: of_LinkItem_def)
  then show ?thesis
    by (simp add: render_throws_def row_throws_of_LinkItem)
qed

lemma parse_null_element: "JSON_parse (js ''[null]'') = Some (JArr [JNull])"
  by code_simp

subsection \<open>Edits that are not JSON\<close>

text \<open>
  Claim C2, as the code has it. For every state and every edited text that \<^verbatim>\<open>JSON.parse\<close>
  rejects, \<^verbatim>\<open>handleJsonChange\<close> leaves the links and the title unchanged; outside read-only
  mode the text buffer takes the new text and the error becomes "Invalid JSON syntax"; in
  read-only mode the handler returns at its guard and changes nothing.
\<close>

theorem invalid_json_edit:
  assumes "JSON_parse text = None"
  shows "handleJsonChange text s =
           (if isReadOnly s then s
            else s\<lparr>jsonString := text, jsonError := Some (js ''Invalid JSON syntax'')\<rparr>)
       \<and> links (handleJsonChange text s) = links s
       \<and> linksRef (handleJsonChange text s) = linksRef s
       \<and> title (handleJsonChange text s) = title s"
  using assms by (simp add: handleJsonChange_cases setter_defs)

theorem invalid_json_edit_witness:
  "JSON_parse (js ''{'') = None
   \<and> handleJsonChange (js ''{'') mounted =
       mounted\<lparr>jsonString := js ''{'', jsonError := Some (js ''Invalid JSON syntax'')\<rparr>
   \<and> links (handleJsonChange (js ''{'') mounted) = links mounted"
proof -
  have ro: "\<not> isReadOnly mounted"
    by (simp add: mounted_def sync_effect_def initial_def setter_defs)
  show ?thesis
    using invalid_json_edit[OF parse_open_brace, of mounted] parse_open_brace ro by simp
qed

text \<open>
  In read-only mode the error is not set and the buffer does not take the text: the claim
  as stated for every state fails there.
\<close>

theorem invalid_json_edit_read_only_counterexample:
  "JSON_parse (js ''{'') = None
   \<and> jsonError (handleJsonChange (js ''{'') locked) \<noteq> Some (js ''Invalid JSON syntax'')
   \<and> jsonString (handleJsonChange (js ''{'') locked) \<noteq> js ''{''"
proof -
  have "handleJsonChange (js ''{'') locked = locked"
    by (simp add: handleJsonChange_def locked_def setter_defs)
  moreover have "jsonError locked = None"
    by (simp add: locked_def mounted_def sync_effect_def initial_def setter_defs)
  moreover have "jsonString locked \<noteq> js ''{''"
    by (simp add: locked_def mounted_def sync_effect_def initial_def setter_defs mirror_def
          stringify_object_def data_of_def js_def)
  ultimately show ?thesis using parse_open_brace by simp
qed


subsection \<open>Which texts are accepted\<close>

text \<open>
  Claim C3, as the code has it. For every input text, \<^verbatim>\<open>uploadJson\<close> and, outside read-only
  mode, \<^verbatim>\<open>handleJsonChange\<close> replace the link list exactly when the text parses as JSON and
  is an array or an object whose \<^verbatim>\<open>items\<close> field is an array, and then raise no error; in
  every other case they report an error (\<^verbatim>\<open>jsonError\<close>, \<^verbatim>\<open>alert\<close>) and do not touch the
  links. The stored list is the parsed array whatever its elements are: nothing else is
  validated. In read-only mode \<^verbatim>\<open>handleJsonChange\<close> ignores every text.
\<close>

theorem accepted_texts:
  "(isReadOnly s \<longrightarrow> handleJsonChange text s = s)
   \<and> (case JSON_parse text of
         None \<Rightarrow>
           (\<not> isReadOnly s \<longrightarrow>
              links (handleJsonChange text s) = links s
              \<and> linksRef (handleJsonChange text s) = linksRef s
              \<and> jsonError (handleJsonChange text s) = Some (js ''Invalid JSON syntax''))
           \<and> reader_onload text s = (s, Some (js ''Error parsing JSON file.''))
       | Some v \<Rightarrow>
           if accepted_shape v then
             (\<not> isReadOnly s \<longrightarrow>
                links (handleJsonChange text s) = accepted_items v
                \<and> linksRef (handleJsonChange text s) = Suc (linksRef s)
                \<and> jsonError (handleJsonChange text s) = None)
             \<and> links (fst (reader_onload text s)) = accepted_items v
             \<and> linksRef (fst (reader_onload text s)) = Suc (linksRef s)
             \<and> snd (reader_onload text s) = None
           else
             (\<not> isReadOnly s \<longrightarrow>
                links (handleJsonChange text s) = links s
                \<and> linksRef (handleJsonChange text s) = linksRef s
                \<and> jsonError (handleJsonChange text s) =
                    Some (js ''Invalid format: Expected array or { title, items: [] }''))
             \<and> reader_onload text s = (s, Some (js ''File is not a valid LinkList file.'')))"
  by (simp add: handleJsonChange_cases reader_onload_cases setter_defs split: option.splits)

theorem accepted_texts_witness:
  "\<not> isReadOnly mounted
   \<and> links (handleJsonChange (js ''{\"items\":[1,null]}'') mounted) = [JNum (js ''1''), JNull]
   \<and> jsonError (handleJsonChange (js ''{\"items\":[1,null]}'') mounted) = None
   \<and> links (fst (reader_onload (js ''{\"items\":[1,null]}'') mounted)) = [JNum (js ''1''), JNull]
   \<and> snd (reader_onload (js ''{\"items\":[1,null]}'') mounted) = None
   \<and> links (handleJsonChange (js ''5'') mounted) = links mounted
   \<and> jsonError (handleJsonChange (js ''5'') mounted) =
       Some (js ''Invalid format: Expected array or { title, items: [] }'')
   \<and> reader_onload (js ''5'') mounted = (mounted, Some (js ''File is not a valid LinkList file.''))
   \<and> reader_onload (js ''{'') mounted = (mounted, Some (js ''Error parsing JSON file.''))"
proof -
  have ro: "\<not> isReadOnly mounted"
    by (simp add: mounted_def sync_effect_def initial_def setter_defs)
  show ?thesis
    using ro accepted_texts[of mounted "js ''{\"items\":[1,null]}''"]
      accepted_texts[of mounted "js ''5''"] accepted_texts[of mounted "js ''{''"]
    by (simp add: parse_unvalidated parse_number parse_open_brace accepted_shape_def
          accepted_items_def)
qed

text \<open>
  In read-only mode \<^verbatim>\<open>handleJsonChange\<close> ignores a text of the accepted shape: the claim as
  stated for every text, whatever the mode, fails there.
\<close>

theorem accepted_texts_read_only_counterexample:
  "JSON_parse (js ''[]'') = Some (JArr [])
   \<and> accepted_shape (JArr [])
   \<and> links (handleJsonChange (js ''[]'') locked) \<noteq> []
   \<and> linksRef (handleJsonChange (js ''[]'') locked) = linksRef locked"
proof -
  have "handleJsonChange (js ''[]'') locked = locked"
    by (simp add: handleJsonChange_def locked_def setter_defs)
  moreover have "links locked \<noteq> []"
    by (simp add: locked_def mounted_def sync_effect_def initial_def setter_defs)
  ultimately show ?thesis using parse_empty_array by (simp add: accepted_shape_def)
qed

subsection \<open>The title after an upload and after an edit\<close>

lemma literal_parts_underflow: "literal_parts (js ''1e-400'') = (1, - 400)"
  by code_simp

lemma rounds_to_zero_underflow: "rounds_to_zero (js ''1e-400'')"
  by (simp add: rounds_to_zero_def literal_parts_underflow)

lemma literal_parts_seven: "literal_parts (js ''7'') = (7, 0)"
  by code_simp

lemma rounds_to_zero_seven: "\<not> rounds_to_zero (js ''7'')"
  by (simp add: rounds_to_zero_def literal_parts_seven)

lemma parse_string_title:
  "JSON_parse (js ''{\"title\":\"A\",\"items\":[]}'') =
     Some (JObj [(js ''title'', JStr (js ''A'')), (js ''items'', JArr [])])"
  by code_simp

lemma parse_underflow_title:
  "JSON_parse (js ''{\"title\":1e-400,\"items\":[]}'') =
     Some (JObj [(js ''title'', JNum (js ''1e-400'')), (js ''items'', JArr [])])"
  by code_simp

lemma parse_number_title:
  "JSON_parse (js ''{\"title\":7,\"items\":[]}'') =
     Some (JObj [(js ''title'', JNum (js ''7'')), (js ''items'', JArr [])])"
  by code_simp

text \<open>
  Claim C9. For a text that parses to a bare array, \<^verbatim>\<open>uploadJson\<close> sets the title to
  "Imported List" and \<^verbatim>\<open>handleJsonChange\<close> keeps the title. For an object with an \<^verbatim>\<open>items\<close>
  array, \<^verbatim>\<open>uploadJson\<close> sets the title to the object's \<^verbatim>\<open>title\<close> when that is truthy and to
  "Untitled List" otherwise; \<^verbatim>\<open>handleJsonChange\<close> keeps the existing title when the
  \<^verbatim>\<open>title\<close> field is absent, empty or otherwise falsy (and in read-only mode), and sets
  the title to the field when it is truthy. The falsy values of the field are \<^verbatim>\<open>null\<close>,
  \<^verbatim>\<open>false\<close>, the empty string, and a number whose double is zero.
\<close>

theorem title_of_upload_and_edit:
  "(JSON_parse text = Some (JArr vs) \<longrightarrow>
      title (fst (reader_onload text s)) = JStr (js ''Imported List'')
      \<and> title (handleJsonChange text s) = title s)
   \<and> (JSON_parse text = Some (JObj kvs) \<and> map_of kvs (js ''items'') = Some (JArr vs) \<longrightarrow>
        title (fst (reader_onload text s)) =
          (case map_of kvs (js ''title'') of
             None \<Rightarrow> JStr (js ''Untitled List'')
           | Some JUndefined \<Rightarrow> JStr (js ''Untitled List'')
           | Some JNull \<Rightarrow> JStr (js ''Untitled List'')
           | Some (JBool b) \<Rightarrow> if b then JBool True else JStr (js ''Untitled List'')
           | Some (JNum l) \<Rightarrow> if rounds_to_zero l then JStr (js ''Untitled List'') else JNum l
           | Some (JStr t) \<Rightarrow> if t = [] then JStr (js ''Untitled List'') else JStr t
           | Some (JArr xs) \<Rightarrow> JArr xs
           | Some (JObj ps) \<Rightarrow> JObj ps)
        \<and> title (handleJsonChange text s) =
          (if isReadOnly s then title s
           else case map_of kvs (js ''title'') of
             None \<Rightarrow> title s
           | Some JUndefined \<Rightarrow> title s
           | Some JNull \<Rightarrow> title s
           | Some (JBool b) \<Rightarrow> if b then JBool True else title s
           | Some (JNum l) \<Rightarrow> if rounds_to_zero l then title s else JNum l
           | Some (JStr t) \<Rightarrow> if t = [] then title s else JStr t
           | Some (JArr xs) \<Rightarrow> JArr xs
           | Some (JObj ps) \<Rightarrow> JObj ps))"
  by (auto simp: handleJsonChange_cases reader_onload_cases setter_defs accepted_shape_def
        read_prop_def split: option.splits jsval.splits)

text \<open>
  Instances: a bare array, an object without title, with the empty title, with a string
  title, with a number that underflows to zero, and with a number that does not.
\<close>

theorem title_of_upload_and_edit_witness:
  "title (fst (reader_onload (js ''[]'') mounted)) = JStr (js ''Imported List'')
   \<and> title (handleJsonChange (js ''[]'') mounted) = JStr (js ''My Useful Links'')
   \<and> title (fst (reader_onload (js ''{\"items\":[]}'') mounted)) = JStr (js ''Untitled List'')
   \<and> title (handleJsonChange (js ''{\"items\":[]}'') mounted) = JStr (js ''My Useful Links'')
   \<and> title (fst (reader_onload (js ''{\"title\":\"\",\"items\":[]}'') mounted)) =
       JStr (js ''Untitled List'')
   \<and> title (handleJsonChange (js ''{\"title\":\"\",\"items\":[]}'') mounted) =
       JStr (js ''My Useful Links'')
   \<and> title (fst (reader_onload (js ''{\"title\":\"A\",\"items\":[]}'') mounted)) = JStr (js ''A'')
   \<and> title (handleJsonChange (js ''{\"title\":\"A\",\"items\":[]}'') mounted) = JStr (js ''A'')
   \<and> title (fst (reader_onload (js ''{\"title\":1e-400,\"items\":[]}'') mounted)) =
       JStr (js ''Untitled List'')
   \<and> title (handleJsonChange (js ''{\"title\":1e-400,\"items\":[]}'') mounted) =
       JStr (js ''My Useful Links'')
   \<and> title (fst (reader_onload (js ''{\"title\":7,\"items\":[]}'') mounted)) = JNum (js ''7'')
   \<and> title (handleJsonChange (js ''{\"title\":7,\"items\":[]}'') mounted) = JNum (js ''7'')"
proof -
  have ne: "js ''title'' \<noteq> js ''items''" "js ''items'' \<noteq> js ''title''" "js ''A'' \<noteq> []"
    by (simp_all add: js_def)
  show ?thesis
    using title_of_upload_and_edit[of "js ''[]''" "[]" mounted "[]"]
      title_of_upload_and_edit[of "js ''{\"items\":[]}''" "[]" mounted "[(js ''items'', JArr [])]"]
      title_of_upload_and_edit[of "js ''{\"title\":\"\",\"items\":[]}''" "[]" mounted
        "[(js ''title'', JStr []), (js ''items'', JArr [])]"]
      title_of_upload_and_edit[of "js ''{\"title\":\"A\",\"items\":[]}''" "[]" mounted
        "[(js ''title'', JStr (js ''A'')), (js ''items'', JArr [])]"]
      title_of_upload_and_edit[of "js ''{\"title\":1e-400,\"items\":[]}''" "[]" mounted
        "[(js ''title'', JNum (js ''1e-400'')), (js ''items'', JArr [])]"]
      title_of_upload_and_edit[of "js ''{\"title\":7,\"items\":[]}''" "[]" mounted
        "[(js ''title'', JNum (js ''7'')), (js ''items'', JArr [])]"]
    by (simp add: parse_empty_array parse_no_title parse_empty_title parse_string_title
          parse_underflow_title parse_number_title rounds_to_zero_underflow
          rounds_to_zero_seven mounted_facts ne)
qed

section \<open>The handlers on typed link items\<close>

lemma js_neq_simps:
  "js ''id'' \<noteq> js ''label''" "js ''id'' \<noteq> js ''url''" "js ''label'' \<noteq> js ''url''"
  "js ''label'' \<noteq> js ''id''" "js ''url'' \<noteq> js ''id''" "js ''url'' \<noteq> js ''label''"
  "js ''title'' \<noteq> js ''items''" "js ''items'' \<noteq> js ''title''"
  by (simp_all add: js_def)

lemma id_is_of_LinkItem: "id_is i (of_LinkItem l) = Inr (link_id l = i)"
  by (auto simp: id_is_def of_LinkItem_def)

lemma spread_with_of_LinkItem:
  "spread_with (of_LinkItem l) (field_name f) (JStr v) = of_LinkItem (set_field f v l)"
  by (cases f) (simp_all add: of_LinkItem_def js_neq_simps)

lemma updateLink_item_of_LinkItem:
  "updateLink_item i f v (of_LinkItem l) =
     Inr (of_LinkItem (if link_id l = i then set_field f v l else l))"
  by (simp add: updateLink_item_def id_is_of_LinkItem spread_with_of_LinkItem)

lemma map_throwing_updateLink_item:
  "map_throwing (updateLink_item i f v) (map of_LinkItem L) =
     Inr (map of_LinkItem (map (\<lambda>l. if link_id l = i then set_field f v l else l) L))"
  by (induction L) (simp_all add: updateLink_item_of_LinkItem)

lemma filter_throwing_removeLink:
  "filter_throwing (\<lambda>link. map_sum (\<lambda>e. e) Not (id_is i link)) (map of_LinkItem L) =
     Inr (map of_LinkItem (filter (\<lambda>l. link_id l \<noteq> i) L))"
  by (induction L) (simp_all add: id_is_of_LinkItem)

section \<open>Drag reordering\<close>













section \<open>Field edits and removal\<close>

text \<open>
  Claim C8. For every list of link items, every id, field and value, \<^verbatim>\<open>updateLink\<close> returns
  a state whose list is the old one with the named field set to the value in every item
  whose id equals the given id; such an item keeps its id and its other field, and every
  other item, the length and the order of the list are unchanged. \<^verbatim>\<open>removeLink\<close> returns a
  state whose list is the old one without the items with the given id, the rest in their
  order. Neither changes another state variable.
\<close>

theorem updateLink_removeLink_frame:
  assumes "links s = map of_LinkItem L"
  shows "(\<exists>s'. updateLink i f v s = Inr s'
            \<and> links s' = map of_LinkItem
                 (map (\<lambda>l. if link_id l = i then set_field f v l else l) L)
            \<and> length (links s') = length (links s)
            \<and> title s' = title s \<and> jsonString s' = jsonString s \<and> jsonError s' = jsonError s
            \<and> isJsonOpen s' = isJsonOpen s \<and> isReadOnly s' = isReadOnly s)
       \<and> (\<exists>s'. removeLink i s = Inr s'
            \<and> links s' = map of_LinkItem (filter (\<lambda>l. link_id l \<noteq> i) L)
            \<and> title s' = title s \<and> jsonString s' = jsonString s \<and> jsonError s' = jsonError s
            \<and> isJsonOpen s' = isJsonOpen s \<and> isReadOnly s' = isReadOnly s)
       \<and> link_id (set_field f v l) = link_id l
       \<and> link_label (set_field Label v l) = v \<and> link_url (set_field Label v l) = link_url l
       \<and> link_url (set_field Url v l) = v \<and> link_label (set_field Url v l) = link_label l"
proof -
  have "updateLink i f v s =
          Inr (setLinks (map of_LinkItem
                 (map (\<lambda>l. if link_id l = i then set_field f v l else l) L)) s)"
    using assms by (simp add: updateLink_def map_throwing_updateLink_item)
  then have u: "\<exists>s'. updateLink i f v s = Inr s'
            \<and> links s' = map of_LinkItem
                 (map (\<lambda>l. if link_id l = i then set_field f v l else l) L)
            \<and> length (links s') = length (links s)
            \<and> title s' = title s \<and> jsonString s' = jsonString s \<and> jsonError s' = jsonError s
            \<and> isJsonOpen s' = isJsonOpen s \<and> isReadOnly s' = isReadOnly s"
    using assms by (simp add: setLinks_def)
  have "removeLink i s =
          Inr (setLinks (map of_LinkItem (filter (\<lambda>l. link_id l \<noteq> i) L)) s)"
    using assms by (simp add: removeLink_def filter_throwing_removeLink)
  then have r: "\<exists>s'. removeLink i s = Inr s'
            \<and> links s' = map of_LinkItem (filter (\<lambda>l. link_id l \<noteq> i) L)
            \<and> title s' = title s \<and> jsonString s' = jsonString s \<and> jsonError s' = jsonError s
            \<and> isJsonOpen s' = isJsonOpen s \<and> isReadOnly s' = isReadOnly s"
    by (simp add: setLinks_def)
  have "link_id (set_field f v l) = link_id l"
    by (cases f) simp_all
  with u r show ?thesis by simp
qed

text \<open>An instance: the two links of the initial state.\<close>

theorem updateLink_removeLink_frame_witness:
  "links initial = map of_LinkItem two_links
   \<and> (\<exists>s'. updateLink (js ''2'') Label (js ''Hub'') initial = Inr s'
        \<and> links s' =
         [of_LinkItem \<lparr>link_id = js ''1'', link_label = js ''Google'', link_url = js ''https://google.com''\<rparr>,
          of_LinkItem \<lparr>link_id = js ''2'', link_label = js ''Hub'', link_url = js ''https://github.com''\<rparr>])
   \<and> (\<exists>s'. removeLink (js ''1'') initial = Inr s'
        \<and> links s' =
         [of_LinkItem \<lparr>link_id = js ''2'', link_label = js ''GitHub'', link_url = js ''https://github.com''\<rparr>])"
proof -
  have h: "links initial = map of_LinkItem two_links"
    by (simp add: initial_def two_links_def)
  have ne: "js ''1'' \<noteq> js ''2''" "js ''2'' \<noteq> js ''1''"
    by (simp_all add: js_def)
  obtain u where u: "updateLink (js ''2'') Label (js ''Hub'') initial = Inr u"
    and lu: "links u = map of_LinkItem
               (map (\<lambda>l. if link_id l = js ''2'' then set_field Label (js ''Hub'') l else l)
                  two_links)"
    using updateLink_removeLink_frame[OF h, of "js ''2''" Label "js ''Hub''"] by blast
  obtain r where r: "removeLink (js ''1'') initial = Inr r"
    and lr: "links r = map of_LinkItem (filter (\<lambda>l. link_id l \<noteq> js ''1'') two_links)"
    using updateLink_removeLink_frame[OF h, of "js ''1''" Label "js ''Hub''"] by blast
  show ?thesis
    using h u r lu lr by (simp add: two_links_def ne)
qed

section \<open>The JSON mirror\<close>

lemma mirror_setJsonString [simp]: "mirror (setJsonString v s) = mirror s"
  by (simp add: mirror_def setJsonString_def)

lemma sync_effect_closed:
  "\<not> isJsonOpen h \<Longrightarrow>
     \<not> isJsonOpen (sync_effect h) \<and> jsonString (sync_effect h) = mirror (sync_effect h)"
  by (simp add: sync_effect_def) (simp add: setJsonString_def)

lemma handler_mutates:
  assumes "mutates e s" and "handler e s = Inr h"
  shows "deps_changed s h \<and> isJsonOpen h = isJsonOpen s"
  using assms
  by (cases e)
     (auto simp: deps_changed_def addLink_def updateLink_def removeLink_def handleDragEnd_def
        uploadJson_def handleJsonChange_cases reader_onload_cases accepts_def setter_defs
        split: sum.splits option.splits if_splits)

lemma mutation_restores:
  assumes "\<not> isJsonOpen s" and "mutates e s" and "step_with lib e s = Inr s'"
  shows "\<not> isJsonOpen s' \<and> jsonString s' = mirror s'"
proof -
  obtain h where h: "handler e s = Inr h" and s': "s' = after_render s h"
    using step_with_Inr[OF assms(3)] by blast
  from handler_mutates[OF assms(2) h] assms(1)
  have "deps_changed s h" and "\<not> isJsonOpen h" by simp_all
  then show ?thesis
    using s' sync_effect_closed[of h] by (simp add: after_render_def)
qed

lemma handler_idle:
  assumes "\<not> mutates e s" and "handler e s = Inr h" and "e \<noteq> ToggleJsonOpen"
  shows "\<not> deps_changed s h \<and> mirror h = mirror s \<and> isJsonOpen h = isJsonOpen s
       \<and> ((jsonString h = jsonString s \<and> jsonError h = jsonError s)
            \<or> (jsonError h \<noteq> None \<and> \<not> accepts (jsonString h)))"
  using assms
  by (cases e)
     (auto simp: deps_changed_def mirror_def handleDragEnd_def
        uploadJson_def handleJsonChange_cases reader_onload_cases accepts_def setter_defs
        split: sum.splits option.splits if_splits)

lemma toggle_closes:
  assumes "step_with lib ToggleJsonOpen s = Inr s'" and "\<not> isJsonOpen s'"
  shows "jsonString s' = mirror s'"
proof -
  obtain h where h: "handler ToggleJsonOpen s = Inr h" and s': "s' = after_render s h"
    using step_with_Inr[OF assms(1)] by blast
  show ?thesis
    using h s' assms(2)
    by (auto simp: after_render_def deps_changed_def sync_effect_def mirror_def
          setter_defs split: if_splits)
qed

lemma reachable_mirror:
  assumes "reachable lib s" and "\<not> isJsonOpen s"
  shows "jsonString s = mirror s \<or> (jsonError s \<noteq> None \<and> \<not> accepts (jsonString s))"
  using assms
proof (induction rule: reachable.induct)
  case reachable_mounted
  have "\<not> isJsonOpen initial" by (simp add: initial_def)
  then show ?case
    unfolding mounted_def using sync_effect_closed[of initial] by simp
next
  case (reachable_step s e s')
  show ?case
  proof (cases "e = ToggleJsonOpen")
    case True
    then show ?thesis
      using toggle_closes reachable_step.hyps(2) reachable_step.prems by simp
  next
    case False
    obtain h where h: "handler e s = Inr h" and s': "s' = after_render s h"
      using step_with_Inr[OF reachable_step.hyps(2)] by blast
    show ?thesis
    proof (cases "mutates e s")
      case True
      have "\<not> isJsonOpen s"
        using handler_mutates[OF True h] s' reachable_step.prems
        by (auto simp: after_render_def sync_effect_def setter_defs split: if_splits)
      then show ?thesis
        using mutation_restores[OF _ True reachable_step.hyps(2)] by simp
    next
      case idle: False
      note i = handler_idle[OF idle h False]
      have eq: "s' = h" using i s' by (simp add: after_render_def)
      have "\<not> isJsonOpen s" using i eq reachable_step.prems by simp
      then have "jsonString s = mirror s \<or> (jsonError s \<noteq> None \<and> \<not> accepts (jsonString s))"
        by (rule reachable_step.IH)
      then show ?thesis
        using i eq by auto
    qed
  qed
qed

text \<open>
  Claim C1, as the code has it. Whatever the libraries throw while rendering: (a) after
  every structured-state mutation (add, update, remove, reorder, title edit, accepted
  upload, accepted edit of the JSON text) performed while the JSON panel is closed and
  followed by a render that does not throw, the panel is closed and \<^verbatim>\<open>jsonString\<close> is
  \<^verbatim>\<open>JSON.stringify({title, items}, null, 2)\<close> of the new state; (b) the same holds after the
  toggle that closes the panel; (c) in every reachable state with the panel closed,
  \<^verbatim>\<open>jsonString\<close> is that serialization, or it is a text that \<^verbatim>\<open>handleJsonChange\<close>
  rejects and \<^verbatim>\<open>jsonError\<close> is set.
\<close>

theorem mirror_when_closed:
  "(\<not> isJsonOpen s \<and> mutates e s \<and> step_with lib e s = Inr s' \<longrightarrow>
      \<not> isJsonOpen s' \<and> jsonString s' = mirror s')
   \<and> (step_with lib ToggleJsonOpen s = Inr s' \<and> \<not> isJsonOpen s' \<longrightarrow> jsonString s' = mirror s')
   \<and> (reachable lib s \<and> \<not> isJsonOpen s \<longrightarrow>
        jsonString s = mirror s \<or> (jsonError s \<noteq> None \<and> \<not> accepts (jsonString s)))"
  using mutation_restores toggle_closes reachable_mirror by blast

text \<open>
  An instance: adding a link to the mounted component. An accepted text with a
  \<^verbatim>\<open>null\<close> element is a mutation after which the render throws.
\<close>

theorem mirror_when_closed_witness:
  "\<not> isJsonOpen mounted \<and> mutates (AddLink (js ''x'')) mounted
   \<and> step (AddLink (js ''x'')) mounted = Inr (sync_effect (addLink (js ''x'') mounted))
   \<and> links (sync_effect (addLink (js ''x'') mounted)) \<noteq> links mounted
   \<and> jsonString (sync_effect (addLink (js ''x'') mounted))
       = mirror (sync_effect (addLink (js ''x'') mounted))
   \<and> reachable (\<lambda>x. False) mounted \<and> jsonString mounted = mirror mounted
   \<and> step (JsonChange (js ''[null]'')) mounted = Inl TypeError"
proof -
  have st: "step_with (\<lambda>x. False) (AddLink (js ''x'')) mounted
              = Inr (sync_effect (addLink (js ''x'') mounted))"
    by (simp add: step_with_def after_render_def deps_changed_def addLink_def setter_defs
          mounted_renders render_throws_add state_neq_linksRef)
  have r: "reachable (\<lambda>x. False) mounted" by (rule reachable_mounted)
  have ch: "links (sync_effect (addLink (js ''x'') mounted)) \<noteq> links mounted"
    by (simp add: sync_effect_def addLink_def setter_defs)
  have n: "step (JsonChange (js ''[null]'')) mounted = Inl TypeError"
    using mounted_facts
    by (simp add: step_def step_with_def handleJsonChange_cases parse_null_element
          accepted_shape_def accepted_items_def render_throws_def setter_defs
          state_neq_linksRef)
  show ?thesis
    using st r ch n mounted_facts
      mirror_when_closed[of mounted "AddLink (js ''x'')" "\<lambda>x. False"
        "sync_effect (addLink (js ''x'') mounted)"]
    by (simp add: step_def)
qed

text \<open>
  The equality is not an invariant of all closed states: a rejected text typed while the
  panel is closed changes \<^verbatim>\<open>jsonString\<close> and none of the effect's dependencies, so the
  effect does not run.
\<close>

lemma stringify_object_not_brace: "stringify_object kvs \<noteq> js ''{''"
  by (simp add: stringify_object_def Let_def js_def)

theorem mirror_when_closed_counterexample:
  "reachable (\<lambda>x. False) (handleJsonChange (js ''{'') mounted)
   \<and> step (JsonChange (js ''{'')) mounted = Inr (handleJsonChange (js ''{'') mounted)
   \<and> \<not> isJsonOpen (handleJsonChange (js ''{'') mounted)
   \<and> jsonString (handleJsonChange (js ''{'') mounted) = js ''{''
   \<and> jsonString (handleJsonChange (js ''{'') mounted) \<noteq> mirror (handleJsonChange (js ''{'') mounted)"
proof -
  have h: "handleJsonChange (js ''{'') mounted =
             mounted\<lparr>jsonString := js ''{'', jsonError := Some (js ''Invalid JSON syntax'')\<rparr>"
    using mounted_facts by (simp add: handleJsonChange_cases parse_open_brace setter_defs)
  have rt: "\<not> render_throws (handleJsonChange (js ''{'') mounted)"
    using mounted_renders by (simp add: h render_throws_def)
  have st: "step_with (\<lambda>x. False) (JsonChange (js ''{'')) mounted
              = Inr (handleJsonChange (js ''{'') mounted)"
    using rt by (simp add: step_with_def after_render_def deps_changed_def) (simp add: h)
  have r: "reachable (\<lambda>x. False) (handleJsonChange (js ''{'') mounted)"
    by (rule reachable_step[OF reachable_mounted st])
  show ?thesis
    using st r mounted_facts stringify_object_not_brace[symmetric]
    by (simp add: step_def h mirror_def)
qed

section \<open>Save and load\<close>

subsection \<open>An escaped code unit is read back\<close>

lemma nat_nibbles:
  fixes x :: nat
  shows "((x div 4096 * 16 + x div 256 mod 16) * 16 + x div 16 mod 16) * 16 + x mod 16 = x"
proof -
  have a: "x div 4096 = x div 256 div 16" and b: "x div 256 = x div 16 div 16"
    by (simp_all add: div_mult2_eq[symmetric])
  have "x div 256 div 16 * 16 + x div 256 mod 16 = x div 256"
    by (rule div_mult_mod_eq)
  moreover have "x div 16 div 16 * 16 + x div 16 mod 16 = x div 16"
    by (rule div_mult_mod_eq)
  moreover have "x div 16 * 16 + x mod 16 = x"
    by (rule div_mult_mod_eq)
  ultimately show ?thesis
    by (simp only: a b)
qed

lemma unat_code_unit: "unat (c :: code_unit) < 65536"
  using unsigned_less[of c, where ?'a = nat] by simp

lemma nibble_high_bound:
  fixes c :: code_unit
  shows "c div 0x1000 < 0x10"
proof -
  have "unat c div 4096 < 16"
    using unat_code_unit[of c] by (simp add: div_less_iff_less_mult)
  then show ?thesis
    by (simp add: word_less_nat_alt unat_div)
qed

lemma nibble_bounds:
  fixes c :: code_unit
  shows "c mod 0x10 < 0x10" "c div 0x100 mod 0x10 < 0x10" "c div 0x10 mod 0x10 < 0x10"
  by (simp_all add: word_less_nat_alt unat_mod unat_div)

lemma small_of_nat: "n < 65536 \<Longrightarrow> unat (of_nat n :: code_unit) = n"
  by (simp add: unat_of_nat)

lemma nibble_of_nat:
  fixes c :: code_unit
  shows "c div 0x1000 = of_nat (unat c div 4096)"
    and "c div 0x100 mod 0x10 = of_nat (unat c div 256 mod 16)"
    and "c div 0x10 mod 0x10 = of_nat (unat c div 16 mod 16)"
    and "c mod 0x10 = of_nat (unat c mod 16)"
proof -
  have lt: "unat c div 4096 < 65536" "unat c div 256 mod 16 < 65536"
    "unat c div 16 mod 16 < 65536" "unat c mod 16 < 65536"
    using unat_code_unit[of c] by (simp_all add: div_less_iff_less_mult less_imp_diff_less mod_less_eq_dividend le_less_trans[OF mod_less_eq_dividend])
  show "c div 0x1000 = of_nat (unat c div 4096)"
    and "c div 0x100 mod 0x10 = of_nat (unat c div 256 mod 16)"
    and "c div 0x10 mod 0x10 = of_nat (unat c div 16 mod 16)"
    and "c mod 0x10 = of_nat (unat c mod 16)"
    by (simp_all add: word_unat_eq_iff unat_div unat_mod small_of_nat[OF lt(1)]
          small_of_nat[OF lt(2)] small_of_nat[OF lt(3)] small_of_nat[OF lt(4)])
qed

lemma nibbles_recombine:
  fixes c :: code_unit
  shows "((c div 0x1000 * 0x10 + c div 0x100 mod 0x10) * 0x10 + c div 0x10 mod 0x10) * 0x10
       + c mod 0x10 = c"
proof -
  have "((c div 0x1000 * 0x10 + c div 0x100 mod 0x10) * 0x10 + c div 0x10 mod 0x10) * 0x10
       + c mod 0x10
       = of_nat (((unat c div 4096 * 16 + unat c div 256 mod 16) * 16 + unat c div 16 mod 16) * 16
           + unat c mod 16)"
    by (simp add: nibble_of_nat unat_div)
  also have "\<dots> = of_nat (unat c)"
    by (simp only: nat_nibbles)
  finally show ?thesis by simp
qed


lemma hex_value_hex_digit: "d < 0x10 \<Longrightarrow> hex_value (hex_digit d) = Some d"
  unfolding hex_value_def hex_digit_def
  by (auto simp: word_less_nat_alt word_le_nat_alt unat_word_ariths unat_sub)

lemma hex4_unicode_escape:
  "unicode_escape c = [0x5C, 0x75, h1, h2, h3, h4] \<Longrightarrow> hex4 [h1, h2, h3, h4] = Some c"
  using nibble_high_bound[of c] nibble_bounds[of c] nibbles_recombine[of c]
  by (auto simp: unicode_escape_def hex4_def hex_value_hex_digit)

lemma scan_unicode_escape:
  "scan_string (unicode_escape c @ tail) = scanned c (scan_string tail)"
proof -
  obtain h1 h2 h3 h4 where u: "unicode_escape c = [0x5C, 0x75, h1, h2, h3, h4]"
    by (simp add: unicode_escape_def)
  show ?thesis
    using hex4_unicode_escape[OF u] by (simp add: u)
qed

subsection \<open>A quoted string is read back\<close>

lemma quote_chars_special:
  assumes "(c, e) \<in> set [(0x08, 0x62), (0x09, 0x74), (0x0A, 0x6E), (0x0C, 0x66), (0x0D, 0x72),
                         (0x22, 0x22), (0x5C, 0x5C :: code_unit)]"
  shows "quote_chars (c # cs) = [0x5C, e] @ quote_chars cs" and "unescape e = Some c"
    and "e \<noteq> 0x75"
  using assms by (auto simp: unescape_def)

lemma scan_escape:
  "unescape e = Some u \<Longrightarrow> e \<noteq> 0x75 \<Longrightarrow>
     scan_string ([0x5C, e] @ tail) = scanned u (scan_string tail)"
  by simp

lemma scan_plain:
  "c \<noteq> 0x22 \<Longrightarrow> c \<noteq> 0x5C \<Longrightarrow> \<not> c < 0x20 \<Longrightarrow>
     scan_string (c # tail) = scanned c (scan_string tail)"
  by simp

lemma quote_chars_plain:
  assumes "c \<notin> {0x08, 0x09, 0x0A, 0x0C, 0x0D, 0x22, 0x5C}"
  shows "quote_chars (c # cs) =
    (if c < 0x20 then unicode_escape c @ quote_chars cs
     else if is_high_surrogate c then
       (case cs of
          [] \<Rightarrow> unicode_escape c
        | d # ds \<Rightarrow>
            if is_low_surrogate d then c # d # quote_chars ds
            else unicode_escape c @ quote_chars cs)
     else if is_low_surrogate c then unicode_escape c @ quote_chars cs
     else c # quote_chars cs)"
  using assms by simp

lemma surrogate_plain:
  assumes "is_high_surrogate c \<or> is_low_surrogate c"
  shows "c \<noteq> 0x22" and "c \<noteq> 0x5C" and "\<not> c < 0x20"
  using assms
  by (auto simp: is_high_surrogate_def is_low_surrogate_def word_le_nat_alt word_less_nat_alt)

lemma scan_string_quote_chars:
  "scan_string (quote_chars s @ 0x22 # rest) = Some (s, rest)"
proof (induction "length s" arbitrary: s rule: less_induct)
  case less
  show ?case
  proof (cases s)
    case Nil
    then show ?thesis by simp
  next
    case (Cons c cs)
    have IH: "scan_string (quote_chars t @ 0x22 # rest) = Some (t, rest)"
      if "length t \<le> length cs" for t
      using less[of t] that Cons by simp
    show ?thesis
    proof (cases "c \<in> {0x08, 0x09, 0x0A, 0x0C, 0x0D, 0x22, 0x5C}")
      case True
      then obtain e where
        e: "(c, e) \<in> set [(0x08, 0x62), (0x09, 0x74), (0x0A, 0x6E), (0x0C, 0x66), (0x0D, 0x72),
                          (0x22, 0x22), (0x5C, 0x5C :: code_unit)]"
        by auto
      show ?thesis
        unfolding Cons quote_chars_special(1)[OF e] append_assoc
        by (simp only: scan_escape[OF quote_chars_special(2,3)[OF e]] IH[of cs, simplified])
           (simp add: scanned_def)
    next
      case False
      note q = quote_chars_plain[OF False, of cs]
      have ne: "c \<noteq> 0x22" "c \<noteq> 0x5C" using False by auto
      consider (ctl) "c < 0x20"
        | (pair) d ds where "\<not> c < 0x20" "is_high_surrogate c" "cs = d # ds" "is_low_surrogate d"
        | (lone) "\<not> c < 0x20" "is_high_surrogate c \<or> is_low_surrogate c"
            "\<not> (\<exists>d ds. is_high_surrogate c \<and> cs = d # ds \<and> is_low_surrogate d)"
        | (other) "\<not> c < 0x20" "\<not> is_high_surrogate c" "\<not> is_low_surrogate c"
        by (cases cs) auto
      then show ?thesis
      proof cases
        case ctl
        then have "quote_chars (c # cs) = unicode_escape c @ quote_chars cs"
          using q by simp
        then show ?thesis
          unfolding Cons by (simp add: scan_unicode_escape IH scanned_def)
      next
        case pair
        then have "quote_chars (c # cs) = c # d # quote_chars ds"
          using q by simp
        moreover have "scan_string (c # d # quote_chars ds @ 0x22 # rest)
                         = scanned c (scanned d (scan_string (quote_chars ds @ 0x22 # rest)))"
        proof -
          have c: "c \<noteq> 0x22" "c \<noteq> 0x5C" "\<not> c < 0x20"
            using surrogate_plain[of c] pair(2) by simp_all
          have d: "d \<noteq> 0x22" "d \<noteq> 0x5C" "\<not> d < 0x20"
            using surrogate_plain[of d] pair(4) by simp_all
          show ?thesis
            by (simp only: scan_plain[OF c] scan_plain[OF d])
        qed
        ultimately show ?thesis
          unfolding Cons using pair(3) by (simp add: IH scanned_def)
      next
        case lone
        then have "quote_chars (c # cs) = unicode_escape c @ quote_chars cs"
          using q by (cases cs) auto
        then show ?thesis
          unfolding Cons by (simp add: scan_unicode_escape IH scanned_def)
      next
        case other
        then have "quote_chars (c # cs) = c # quote_chars cs"
          using q by simp
        moreover have "scan_string (c # quote_chars cs @ 0x22 # rest)
                         = scanned c (scan_string (quote_chars cs @ 0x22 # rest))"
          by (rule scan_plain[OF ne other(1)])
        ultimately show ?thesis
          unfolding Cons by (simp add: IH scanned_def)
      qed
    qed
  qed
qed

subsection \<open>The printed text gives the tokens of the value\<close>

lemma emits_simps:
  "emits [] r = r" "emits (t # ts) r = emit t (emits ts r)"
  "emits (ts @ us) r = emits ts (emits us r)"
  by (cases r; simp add: emits_def emit_def)+

lemma tokenize_punct:
  "tokenize (0x7B # cs) = emit TLBrace (tokenize cs)"
  "tokenize (0x7D # cs) = emit TRBrace (tokenize cs)"
  "tokenize (0x5B # cs) = emit TLBrack (tokenize cs)"
  "tokenize (0x5D # cs) = emit TRBrack (tokenize cs)"
  "tokenize (0x3A # cs) = emit TColon (tokenize cs)"
  "tokenize (0x2C # cs) = emit TComma (tokenize cs)"
  "tokenize (0x0A # cs) = tokenize cs"
  "tokenize (0x20 # cs) = tokenize cs"
  by (simp_all add: is_ws_def)

lemma tokenize_spaces: "tokenize (replicate k 0x20 @ cs) = tokenize cs"
  by (induction k) (simp_all add: tokenize_punct del: tokenize.simps)

lemma tokenize_indent: "tokenize (indent n @ cs) = tokenize cs"
  unfolding indent_def by (rule tokenize_spaces)

lemma tokenize_quote: "tokenize (quote s @ rest) = emit (TString s) (tokenize rest)"
  by (simp add: quote_def is_ws_def scan_string_quote_chars)

lemma tokenize_literals:
  "tokenize (js ''null'' @ rest) = emit TNull (tokenize rest)"
  "tokenize (js ''true'' @ rest) = emit TTrue (tokenize rest)"
  "tokenize (js ''false'' @ rest) = emit TFalse (tokenize rest)"
  by (simp_all add: js_def is_ws_def is_digit_def starts_with_def)

lemma tokenize_join:
  assumes "\<And>x rest. x \<in> set xs \<Longrightarrow> tokenize (f x @ rest) = emits (g x) (tokenize rest)"
    and "xs \<noteq> []"
  shows "tokenize (join (0x2C # 0x0A # indent m) (map f xs) @ rest)
           = emits (join [TComma] (map g xs)) (tokenize rest)"
  using assms
proof (induction xs)
  case Nil
  then show ?case by simp
next
  case (Cons x xs)
  show ?case
  proof (cases xs)
    case Nil
    then show ?thesis using Cons.prems(1)[of x rest] by simp
  next
    case (Cons y ys)
    have IH: "tokenize (join (0x2C # 0x0A # indent m) (map f xs) @ rest)
                = emits (join [TComma] (map g xs)) (tokenize rest)"
      using Cons.IH Cons.prems(1) Cons by simp
    have "tokenize (join (0x2C # 0x0A # indent m) (map f (x # xs)) @ rest)
            = tokenize (f x @ (0x2C # 0x0A # indent m
                 @ (join (0x2C # 0x0A # indent m) (map f xs) @ rest)))"
      using Cons by simp
    also have "\<dots> = emits (g x) (tokenize (0x2C # 0x0A # indent m
                 @ (join (0x2C # 0x0A # indent m) (map f xs) @ rest)))"
      using Cons.prems(1)[of x] by simp
    also have "\<dots> = emits (g x) (emit TComma (emits (join [TComma] (map g xs)) (tokenize rest)))"
      by (simp add: tokenize_punct tokenize_indent IH del: tokenize.simps)
    also have "\<dots> = emits (join [TComma] (map g (x # xs))) (tokenize rest)"
      using Cons by (simp add: emits_simps)
    finally show ?thesis .
  qed
qed

lemma tokenize_ser:
  "plain v \<Longrightarrow> tokenize (ser n v @ rest) = emits (toks v) (tokenize rest)"
proof (induction v arbitrary: n rest)
  case JUndefined
  then show ?case by simp
next
  case JNull
  show ?case by (simp add: tokenize_literals emits_simps del: tokenize.simps)
next
  case (JBool b)
  show ?case by (simp add: tokenize_literals emits_simps del: tokenize.simps)
next
  case (JNum l)
  then show ?case by simp
next
  case (JStr s)
  show ?case by (simp add: tokenize_quote emits_simps del: tokenize.simps)
next
  case (JArr vs)
  show ?case
  proof (cases "vs = []")
    case True
    then show ?thesis
      by (simp add: js_def tokenize_punct emits_simps del: tokenize.simps)
  next
    case False
    have el: "tokenize (ser (Suc n) x @ r) = emits (toks x) (tokenize r)" if "x \<in> set vs" for x r
      using JArr.IH[OF that] JArr.prems that by simp
    have "tokenize (ser n (JArr vs) @ rest)
            = emit TLBrack (tokenize (join (0x2C # 0x0A # indent (Suc n)) (map (ser (Suc n)) vs)
                 @ (0x0A # indent n @ 0x5D # rest)))"
      using False by (simp add: tokenize_punct tokenize_indent del: tokenize.simps)
    also have "\<dots> = emit TLBrack (emits (join [TComma] (map toks vs))
                 (tokenize (0x0A # indent n @ 0x5D # rest)))"
      by (simp only: tokenize_join[where f = "ser (Suc n)" and g = toks, OF el False])
    also have "\<dots> = emits (toks (JArr vs)) (tokenize rest)"
      by (simp add: tokenize_punct tokenize_indent emits_simps del: tokenize.simps)
    finally show ?thesis .
  qed
next
  case (JObj kvs)
  have nf: "filter (\<lambda>kv. snd kv \<noteq> JUndefined) kvs = kvs"
    using JObj.prems by (auto simp: filter_id_conv)
  show ?case
  proof (cases "kvs = []")
    case True
    then show ?thesis
      by (simp add: js_def tokenize_punct emits_simps del: tokenize.simps)
  next
    case False
    let ?f = "\<lambda>kv. quote (fst kv) @ [0x3A, 0x20] @ ser (Suc n) (snd kv)"
    let ?g = "\<lambda>kv. [TString (fst kv), TColon] @ toks (snd kv)"
    have el: "tokenize (?f x @ r) = emits (?g x) (tokenize r)" if "x \<in> set kvs" for x r
    proof -
      have "plain (snd x)" using JObj.prems that by simp
      moreover have "snd x \<in> Basic_BNFs.snds x" by (cases x) simp
      ultimately have "tokenize (ser (Suc n) (snd x) @ r) = emits (toks (snd x)) (tokenize r)"
        using JObj.IH[OF that] by blast
      then show ?thesis
        by (simp add: tokenize_quote tokenize_punct emits_simps del: tokenize.simps)
    qed
    have "tokenize (ser n (JObj kvs) @ rest)
            = emit TLBrace (tokenize (join (0x2C # 0x0A # indent (Suc n)) (map ?f kvs)
                 @ (0x0A # indent n @ 0x7D # rest)))"
      using False by (simp add: nf Let_def tokenize_punct tokenize_indent del: tokenize.simps)
    also have "\<dots> = emit TLBrace (emits (join [TComma] (map ?g kvs))
                 (tokenize (0x0A # indent n @ 0x7D # rest)))"
      by (simp only: tokenize_join[where f = ?f and g = ?g, OF el False])
    also have "\<dots> = emits (toks (JObj kvs)) (tokenize rest)"
      by (simp add: tokenize_punct tokenize_indent emits_simps del: tokenize.simps)
    finally show ?thesis .
  qed
qed

subsection \<open>The tokens of a value parse to the value\<close>

lemma update_fresh: "k \<notin> fst ` set ms \<Longrightarrow> AList.update k v ms = ms @ [(k, v)]"
  by (induction ms) auto

lemma run_elements:
  assumes el: "\<And>x e st rest. x \<in> set vs \<Longrightarrow> value_start e \<Longrightarrow>
                 run (e, st) (toks x @ rest) = bind_run (close_value x st) rest"
    and "vs \<noteq> []" and "value_start e"
  shows "run (e, FArr es # st) (join [TComma] (map toks vs) @ TRBrack # rest)
           = bind_run (close_value (JArr (es @ vs)) st) rest"
  using assms
proof (induction vs arbitrary: es e)
  case Nil
  then show ?case by simp
next
  case (Cons x xs)
  have x: "run (e, FArr es # st) (toks x @ r) = run (ExpCommaOrClose, FArr (es @ [x]) # st) r" for r
    using Cons.prems(1)[of x e "FArr es # st" r] Cons.prems(3) by (simp add: bind_run_def)
  show ?case
  proof (cases xs)
    case Nil
    then show ?thesis
      by (simp add: x end_array_def bind_run_def)
  next
    case (Cons y ys)
    have IH: "run (ExpValue, FArr (es @ [x]) # st) (join [TComma] (map toks xs) @ TRBrack # rest)
                = bind_run (close_value (JArr ((es @ [x]) @ xs)) st) rest"
      using Cons.IH[of ExpValue "es @ [x]"] Cons.prems(1) Cons by (simp add: value_start_def)
    have "run (e, FArr es # st) (join [TComma] (map toks (x # xs)) @ TRBrack # rest)
            = run (e, FArr es # st) (toks x @ (TComma # join [TComma] (map toks xs) @ TRBrack # rest))"
      using Cons by simp
    also have "\<dots> = run (ExpValue, FArr (es @ [x]) # st)
                        (join [TComma] (map toks xs) @ TRBrack # rest)"
      by (simp add: x next_item_def)
    finally show ?thesis using IH by simp
  qed
qed

lemma run_members:
  assumes el: "\<And>x e st rest. x \<in> set kvs \<Longrightarrow> value_start e \<Longrightarrow>
                 run (e, st) (toks (snd x) @ rest) = bind_run (close_value (snd x) st) rest"
    and "kvs \<noteq> []" and "key_start e" and "distinct (map fst (ms @ kvs))"
  shows "run (e, FObj ms # st)
           (join [TComma] (map (\<lambda>kv. [TString (fst kv), TColon] @ toks (snd kv)) kvs)
            @ TRBrace # rest)
           = bind_run (close_value (JObj (ms @ kvs)) st) rest"
  using assms
proof (induction kvs arbitrary: ms e)
  case Nil
  then show ?case by simp
next
  case (Cons x xs)
  let ?g = "\<lambda>kv. [TString (fst kv), TColon] @ toks (snd kv)"
  have fresh: "fst x \<notin> fst ` set ms" using Cons.prems(4) by auto
  have key: "pstep e (FObj ms # st) (TString (fst x)) = Some (ExpColon, FKey ms (fst x) # st)"
    using Cons.prems(3) by (auto simp: key_start_def begin_member_def)
  have "run (e, FObj ms # st) (?g x @ r)
          = run (ExpValue, FKey ms (fst x) # st) (toks (snd x) @ r)" for r
    by (simp add: key)
  also have "\<dots> r = run (ExpCommaOrClose, FObj (ms @ [x]) # st) r" for r
    using Cons.prems(1)[of x ExpValue "FKey ms (fst x) # st" r] update_fresh[OF fresh, of "snd x"]
    by (simp add: bind_run_def value_start_def)
  finally have x: "run (e, FObj ms # st) (?g x @ r) = run (ExpCommaOrClose, FObj (ms @ [x]) # st) r"
    for r .
  show ?case
  proof (cases xs)
    case Nil
    have "run (e, FObj ms # st) (join [TComma] (map ?g (x # xs)) @ TRBrace # rest)
            = run (e, FObj ms # st) (?g x @ (TRBrace # rest))"
      using Nil by simp
    also have "\<dots> = bind_run (close_value (JObj (ms @ x # xs)) st) rest"
      unfolding x using Nil by (simp add: end_object_def bind_run_def)
    finally show ?thesis .
  next
    case (Cons y ys)
    have IH: "run (ExpKey, FObj (ms @ [x]) # st) (join [TComma] (map ?g xs) @ TRBrace # rest)
                = bind_run (close_value (JObj ((ms @ [x]) @ xs)) st) rest"
      using Cons.IH[of ExpKey "ms @ [x]"] Cons.prems(1,4) Cons by (simp add: key_start_def)
    have "run (e, FObj ms # st) (join [TComma] (map ?g (x # xs)) @ TRBrace # rest)
            = run (e, FObj ms # st) (?g x @ (TComma # join [TComma] (map ?g xs) @ TRBrace # rest))"
      using Cons by simp
    also have "\<dots> = run (ExpKey, FObj (ms @ [x]) # st) (join [TComma] (map ?g xs) @ TRBrace # rest)"
      unfolding x by (simp add: next_item_def)
    finally show ?thesis using IH by simp
  qed
qed

lemma run_toks:
  "plain v \<Longrightarrow> value_start e \<Longrightarrow>
     run (e, st) (toks v @ rest) = bind_run (close_value v st) rest"
proof (induction v arbitrary: e st rest)
  case JUndefined
  then show ?case by simp
next
  case JNull
  then show ?case by (auto simp: value_start_def begin_value_def bind_run_def)
next
  case (JBool b)
  then show ?case by (auto simp: value_start_def begin_value_def bind_run_def)
next
  case (JNum l)
  then show ?case by simp
next
  case (JStr s)
  then show ?case by (auto simp: value_start_def begin_value_def bind_run_def)
next
  case (JArr vs)
  have start: "pstep e st TLBrack = Some (ExpValueOrClose, FArr [] # st)"
    using JArr.prems(2) by (auto simp: value_start_def begin_value_def)
  show ?case
  proof (cases "vs = []")
    case True
    then show ?thesis by (simp add: start end_array_def bind_run_def)
  next
    case False
    have el: "run (e', st') (toks x @ r) = bind_run (close_value x st') r"
      if "x \<in> set vs" "value_start e'" for x e' st' r
      using JArr.IH[OF that(1) _ that(2)] JArr.prems(1) that(1) by simp
    show ?thesis
      using run_elements[of vs ExpValueOrClose "[]" st rest, OF el False]
      by (simp add: start value_start_def)
  qed
next
  case (JObj kvs)
  have start: "pstep e st TLBrace = Some (ExpKeyOrClose, FObj [] # st)"
    using JObj.prems(2) by (auto simp: value_start_def begin_value_def)
  show ?case
  proof (cases "kvs = []")
    case True
    then show ?thesis by (simp add: start end_object_def bind_run_def)
  next
    case False
    have el: "run (e', st') (toks (snd x) @ r) = bind_run (close_value (snd x) st') r"
      if "x \<in> set kvs" "value_start e'" for x e' st' r
    proof -
      have "plain (snd x)" using JObj.prems(1) that(1) by simp
      moreover have "snd x \<in> Basic_BNFs.snds x" by (cases x) simp
      ultimately show ?thesis using JObj.IH[OF that(1) _ _ that(2)] by blast
    qed
    have d: "distinct (map fst ([] @ kvs))" using JObj.prems(1) by simp
    show ?thesis
      using run_members[of kvs ExpKeyOrClose "[]" st rest, OF el False _ d]
      by (simp add: start key_start_def)
  qed
qed

lemma JSON_parse_ser: "plain v \<Longrightarrow> JSON_parse (ser n v) = Some v"
proof -
  assume p: "plain v"
  have t: "tokenize (ser n v) = Some (toks v)"
    using tokenize_ser[OF p, of n "[]"] by (simp add: emits_def)
  have r: "run (ExpValue, []) (toks v) = Some (Done v, [])"
    using run_toks[OF p, of ExpValue "[]" "[]"] by (simp add: value_start_def bind_run_def)
  show ?thesis by (simp add: JSON_parse_def t r)
qed

subsection \<open>The file written by \<^verbatim>\<open>downloadJson\<close>, read by \<^verbatim>\<open>uploadJson\<close>\<close>

lemma plain_of_LinkItem: "plain (of_LinkItem l)"
  by (simp add: of_LinkItem_def js_neq_simps)

lemma plain_data: "plain (JObj (data_of (JStr T) (map of_LinkItem L)))"
  by (simp add: data_of_def js_neq_simps plain_of_LinkItem)

lemma parse_download_text:
  assumes "title s = JStr T" and "links s = map of_LinkItem L"
  shows "JSON_parse (download_text s) = Some (JObj (data_of (JStr T) (map of_LinkItem L)))"
  using assms JSON_parse_ser[OF plain_data, of 0 T L]
  by (simp add: download_text_def stringify_object_def)

lemma upload_of_download:
  assumes "title s = JStr T" and "links s = map of_LinkItem L"
  shows "reader_onload (download_text s) s0 =
           (setTitle (JStr (if T = [] then js ''Untitled List'' else T))
              (setLinks (map of_LinkItem L) s0), None)"
  by (simp add: reader_onload_def parse_download_text[OF assms] data_of_def read_prop_def
        js_neq_simps)

text \<open>
  Claim C5, as the code has it. For every non-empty title \<open>T\<close> and list of link items
  \<open>L\<close>, the text that \<^verbatim>\<open>downloadJson\<close> writes for \<^verbatim>\<open>{title: T, items: L}\<close>, given to
  \<^verbatim>\<open>uploadJson\<close>, restores \<open>links = L\<close> and \<open>title = T\<close> and raises no alert.
\<close>

theorem save_load_round_trip:
  assumes "title s = JStr T" and "links s = map of_LinkItem L" and "T \<noteq> []"
  shows "uploadJson (Some (download_text s)) s0 =
           (setTitle (JStr T) (setLinks (map of_LinkItem L) s0), None)
       \<and> links (fst (uploadJson (Some (download_text s)) s0)) = links s
       \<and> title (fst (uploadJson (Some (download_text s)) s0)) = title s"
  using assms upload_of_download[OF assms(1,2), of s0]
  by (simp add: uploadJson_def setLinks_def setTitle_def)

theorem save_load_round_trip_witness:
  "title initial = JStr (js ''My Useful Links'')
   \<and> links initial = map of_LinkItem two_links
   \<and> js ''My Useful Links'' \<noteq> []
   \<and> links (fst (uploadJson (Some (download_text initial)) locked)) = links initial
   \<and> title (fst (uploadJson (Some (download_text initial)) locked)) = JStr (js ''My Useful Links'')"
proof -
  have t: "title initial = JStr (js ''My Useful Links'')"
    and l: "links initial = map of_LinkItem two_links"
    and n: "js ''My Useful Links'' \<noteq> []"
    by (simp_all add: initial_def two_links_def js_def)
  show ?thesis
    using t l n save_load_round_trip[OF t l n, of locked]
    by (simp add: setLinks_def setTitle_def)
qed

text \<open>
  For the empty title the links are restored, but \<^verbatim>\<open>parsed.title || "Untitled List"\<close>
  replaces the title.
\<close>

theorem save_load_empty_title_counterexample:
  "title untitled = JStr [] \<and> links untitled = map of_LinkItem two_links
   \<and> links (fst (uploadJson (Some (download_text untitled)) untitled)) = links untitled
   \<and> title (fst (uploadJson (Some (download_text untitled)) untitled)) = JStr (js ''Untitled List'')
   \<and> title (fst (uploadJson (Some (download_text untitled)) untitled)) \<noteq> title untitled"
proof -
  have t: "title untitled = JStr []" and l: "links untitled = map of_LinkItem two_links"
    by (simp_all add: untitled_def mounted_def sync_effect_def initial_def two_links_def
          setJsonString_def setTitle_def)
  have "js ''Untitled List'' \<noteq> []" by (simp add: js_def)
  then show ?thesis
    using t l upload_of_download[OF t l, of untitled]
    by (simp add: uploadJson_def setTitle_def setLinks_def)
qed

section \<open>Read-only mode\<close>



section \<open>The text buffer while the panel is open\<close>

lemma handler_keeps_panel:
  "handler e s = Inr h \<Longrightarrow> e \<noteq> ToggleJsonOpen \<Longrightarrow> isJsonOpen h = isJsonOpen s"
  by (cases e)
     (auto simp: addLink_def updateLink_def removeLink_def handleDragEnd_def uploadJson_def
        handleJsonChange_cases reader_onload_cases setter_defs
        split: sum.splits option.splits if_splits)

lemma handler_keeps_text:
  "handler e s = Inr h \<Longrightarrow> \<forall>text. e \<noteq> JsonChange text \<Longrightarrow> jsonString h = jsonString s"
  by (cases e)
     (auto simp: addLink_def updateLink_def removeLink_def handleDragEnd_def uploadJson_def
        reader_onload_cases setter_defs
        split: sum.splits option.splits if_splits)

lemma handleJsonChange_text:
  "jsonString (handleJsonChange text s) = (if isReadOnly s then jsonString s else text)"
  by (simp add: handleJsonChange_cases setter_defs split: option.splits)

lemma after_render_open: "isJsonOpen h \<Longrightarrow> after_render s h = h"
  by (simp add: after_render_def sync_effect_def)

lemma after_render_panel: "isJsonOpen (after_render s h) = isJsonOpen h"
  by (simp add: after_render_def sync_effect_def setter_defs)

text \<open>
  Claim C7. While the JSON panel is open, every event but the toggle leaves it open; an
  event that is not the user's typing in the editor and leaves the panel open does not
  change \<^verbatim>\<open>jsonString\<close>, whatever it does to the links and the title; typing sets
  \<^verbatim>\<open>jsonString\<close> to the typed text (outside read-only mode); and the text is rewritten from
  the structured state only by the event that closes the panel.
\<close>

theorem open_panel_keeps_text:
  assumes "isJsonOpen s" and "step e s = Inr s'"
  shows "(e \<noteq> ToggleJsonOpen \<longrightarrow> isJsonOpen s')
       \<and> ((\<forall>text. e \<noteq> JsonChange text) \<and> isJsonOpen s' \<longrightarrow> jsonString s' = jsonString s)
       \<and> (\<forall>text. e = JsonChange text \<longrightarrow>
             jsonString s' = (if isReadOnly s then jsonString s else text))
       \<and> (\<not> isJsonOpen s' \<longrightarrow> e = ToggleJsonOpen \<and> jsonString s' = mirror s')"
proof -
  obtain h where h: "handler e s = Inr h" and s': "s' = after_render s h"
    using step_with_Inr[of "\<lambda>x. False" e s s'] assms(2) by (auto simp: step_def)
  have panel: "e \<noteq> ToggleJsonOpen \<Longrightarrow> isJsonOpen s'"
    using handler_keeps_panel[OF h] assms(1) s' by (simp add: after_render_panel)
  have keep: "jsonString s' = jsonString s" if "\<forall>text. e \<noteq> JsonChange text" "isJsonOpen s'"
    using handler_keeps_text[OF h that(1)] that(2) s'
    by (simp add: after_render_panel after_render_open)
  have edit: "jsonString s' = (if isReadOnly s then jsonString s else v)"
    if "e = JsonChange v" for v
  proof -
    have "isJsonOpen h" using panel that s' by (simp add: after_render_panel)
    then have "s' = handleJsonChange v s"
      using h that s' by (simp add: after_render_open)
    then show ?thesis
      by (simp only: handleJsonChange_text)
  qed
  have shut: "e = ToggleJsonOpen \<and> jsonString s' = mirror s'" if "\<not> isJsonOpen s'"
    using that panel toggle_closes[of "\<lambda>x. False" s s'] assms(2) by (auto simp: step_def)
  from panel keep edit shut show ?thesis by blast
qed

lemma opened_renders: "\<not> render_throws opened"
  using mounted_renders by (simp add: opened_def render_throws_def setter_defs)

theorem open_panel_keeps_text_witness:
  "isJsonOpen opened
   \<and> step (AddLink (js ''x'')) opened = Inr (addLink (js ''x'') opened)
   \<and> links (addLink (js ''x'') opened) \<noteq> links opened
   \<and> isJsonOpen (addLink (js ''x'') opened)
   \<and> jsonString (addLink (js ''x'') opened) = jsonString opened"
proof -
  have o: "isJsonOpen opened"
    by (simp add: opened_def setter_defs)
  have st: "step (AddLink (js ''x'')) opened = Inr (addLink (js ''x'') opened)"
    using o opened_renders
    by (simp add: step_def step_with_def after_render_def sync_effect_def addLink_def
          setter_defs render_throws_add state_neq_linksRef)
  have ch: "links (addLink (js ''x'') opened) \<noteq> links opened"
    by (simp add: addLink_def setter_defs)
  show ?thesis
    using o st ch open_panel_keeps_text[OF o st] by simp
qed

section \<open>The download file name\<close>

lemma lower_replace_map:
  "toLowerCase (replace_non_alnum t) = map (\<lambda>c. lower_ascii (if is_alnum c then c else 0x5F)) t"
  by (simp add: toLowerCase_def replace_non_alnum_def)

text \<open>
  Claim C10. For every title string the download file name is the title with every code
  unit that is not an ASCII letter or digit replaced by an underscore, lowercased, followed
  by \<^verbatim>\<open>.json\<close>. The fallback \<^verbatim>\<open>links\<close> is used exactly when the transformed string is
  empty, which is exactly when the title is empty: a non-empty title without letters or
  digits gives a name of underscores.
\<close>

theorem download_name_spec:
  "download_name (JStr t) =
     Inr ((if t = [] then js ''links''
           else map (\<lambda>c. lower_ascii (if is_alnum c then c else 0x5F)) t) @ js ''.json'')
   \<and> (toLowerCase (replace_non_alnum t) = [] \<longleftrightarrow> t = [])
   \<and> (t \<noteq> [] \<and> list_all (\<lambda>c. \<not> is_alnum c) t \<longrightarrow>
        download_name (JStr t) = Inr (replicate (length t) 0x5F @ js ''.json''))"
proof -
  have a: "toLowerCase (replace_non_alnum t) = [] \<longleftrightarrow> t = []"
    by (simp add: lower_replace_map)
  have b: "download_name (JStr t) =
     Inr ((if t = [] then js ''links''
           else map (\<lambda>c. lower_ascii (if is_alnum c then c else 0x5F)) t) @ js ''.json'')"
    by (simp add: download_name_def Let_def lower_replace_map)
  have c: "map (\<lambda>c. lower_ascii (if is_alnum c then c else 0x5F)) t = replicate (length t) 0x5F"
    if "list_all (\<lambda>c. \<not> is_alnum c) t"
    using that by (induction t) (simp_all add: lower_ascii_def)
  from a b c show ?thesis by simp
qed

theorem download_name_spec_witness:
  "download_name (JStr (js ''My Useful Links'')) = Inr (js ''my_useful_links.json'')
   \<and> download_name (JStr (js ''?!'')) = Inr (js ''__.json'')
   \<and> download_name (JStr []) = Inr (js ''links.json'')"
  using download_name_spec[of "js ''My Useful Links''"] download_name_spec[of "js ''?!''"]
    download_name_spec[of "[]"]
  by (simp add: js_def lower_ascii_def is_alnum_def)

end
